theory Spec2Isabelle
  imports Complex_Main
begin

section \<open>Numbers\<close>

text \<open>
  A JavaScript \<open>number\<close> is an IEEE 754 double: a finite value, \<open>Infinity\<close>,
  \<open>-Infinity\<close> or \<open>NaN\<close>. A finite double is given by its real value. The sign of a
  zero is not kept: \<open>-0\<close> is \<open>0\<close>. It would only show in a division by zero, and every
  division of the code modelled here is by a value that the code has made non-zero
  (\<open>|| 1\<close>, \<open>=== 0\<close>) or by a non-zero constant.
\<close>

datatype num = Fin real | PInf | NInf | NaN

text \<open>
  Rounding to the nearest double, ties to the even significand. \<open>rhe\<close> rounds to the
  nearest integer, halves to the even one. The exponent of a value is that of its binade,
  and \<open>-1022\<close> below the normal range (gradual underflow); the unit in the last place is
  \<open>2^(exponent - 52)\<close>. A result of magnitude \<open>2^1024\<close> or more overflows to an infinity.
\<close>

definition rhe :: "real \<Rightarrow> int" where
  "rhe x =
     (let f = \<lfloor>x\<rfloor> in
      if x - of_int f < 1 / 2 then f
      else if x - of_int f > 1 / 2 then f + 1
      else if even f then f else f + 1)"

definition expo :: "real \<Rightarrow> int" where
  "expo x = max \<lfloor>log 2 \<bar>x\<bar>\<rfloor> (- 1022)"

definition ulp :: "real \<Rightarrow> real" where
  "ulp x = 2 powi (expo x - 52)"

definition rnd :: "real \<Rightarrow> real" where
  "rnd x = of_int (rhe (x / ulp x)) * ulp x"

definition fl :: "real \<Rightarrow> num" where
  "fl x =
     (if x = 0 then Fin 0
      else if 2 powi 1024 \<le> \<bar>rnd x\<bar> then (if 0 < x then PInf else NInf)
      else Fin (rnd x))"

text \<open>
  The arithmetic of the language: the exact result of finite operands is rounded by
  \<open>fl\<close>; the infinities and \<open>NaN\<close> follow IEEE 754.
\<close>

fun fneg :: "num \<Rightarrow> num" where
  "fneg (Fin a) = Fin (- a)"
| "fneg PInf = NInf"
| "fneg NInf = PInf"
| "fneg NaN = NaN"

fun fadd :: "num \<Rightarrow> num \<Rightarrow> num" where
  "fadd (Fin a) (Fin b) = fl (a + b)"
| "fadd NaN b = NaN"
| "fadd a NaN = NaN"
| "fadd PInf NInf = NaN"
| "fadd NInf PInf = NaN"
| "fadd PInf b = PInf"
| "fadd a PInf = PInf"
| "fadd NInf b = NInf"
| "fadd a NInf = NInf"

definition fsub :: "num \<Rightarrow> num \<Rightarrow> num" where
  "fsub a b = fadd a (fneg b)"

fun fmul :: "num \<Rightarrow> num \<Rightarrow> num" where
  "fmul (Fin a) (Fin b) = fl (a * b)"
| "fmul NaN b = NaN"
| "fmul a NaN = NaN"
| "fmul (Fin a) PInf = (if a = 0 then NaN else if 0 < a then PInf else NInf)"
| "fmul (Fin a) NInf = (if a = 0 then NaN else if 0 < a then NInf else PInf)"
| "fmul PInf (Fin b) = (if b = 0 then NaN else if 0 < b then PInf else NInf)"
| "fmul NInf (Fin b) = (if b = 0 then NaN else if 0 < b then NInf else PInf)"
| "fmul PInf PInf = PInf"
| "fmul PInf NInf = NInf"
| "fmul NInf PInf = NInf"
| "fmul NInf NInf = PInf"

fun fdiv :: "num \<Rightarrow> num \<Rightarrow> num" where
  "fdiv (Fin a) (Fin b) =
     (if b = 0 then (if a = 0 then NaN else if 0 < a then PInf else NInf) else fl (a / b))"
| "fdiv NaN b = NaN"
| "fdiv a NaN = NaN"
| "fdiv (Fin a) PInf = Fin 0"
| "fdiv (Fin a) NInf = Fin 0"
| "fdiv PInf (Fin b) = (if 0 \<le> b then PInf else NInf)"
| "fdiv NInf (Fin b) = (if 0 \<le> b then NInf else PInf)"
| "fdiv PInf PInf = NaN"
| "fdiv PInf NInf = NaN"
| "fdiv NInf PInf = NaN"
| "fdiv NInf NInf = NaN"

fun fsqrt :: "num \<Rightarrow> num" where
  "fsqrt (Fin a) = (if a < 0 then NaN else fl (sqrt a))"
| "fsqrt PInf = PInf"
| "fsqrt NInf = NaN"
| "fsqrt NaN = NaN"

text \<open>\<open>Math.floor\<close>: the floor of a double is a double.\<close>

fun ffloor :: "num \<Rightarrow> num" where
  "ffloor (Fin a) = Fin (of_int \<lfloor>a\<rfloor>)"
| "ffloor PInf = PInf"
| "ffloor NInf = NInf"
| "ffloor NaN = NaN"

text \<open>\<open>Math.min(a, b)\<close> and \<open>Math.max(a, b)\<close>: \<open>NaN\<close> when an argument is \<open>NaN\<close>.\<close>

fun fmin2 :: "num \<Rightarrow> num \<Rightarrow> num" where
  "fmin2 (Fin a) (Fin b) = Fin (min a b)"
| "fmin2 NaN b = NaN"
| "fmin2 a NaN = NaN"
| "fmin2 NInf b = NInf"
| "fmin2 a NInf = NInf"
| "fmin2 PInf b = b"
| "fmin2 a PInf = a"

fun fmax2 :: "num \<Rightarrow> num \<Rightarrow> num" where
  "fmax2 (Fin a) (Fin b) = Fin (max a b)"
| "fmax2 NaN b = NaN"
| "fmax2 a NaN = NaN"
| "fmax2 PInf b = PInf"
| "fmax2 a PInf = PInf"
| "fmax2 NInf b = b"
| "fmax2 a NInf = a"

text \<open>
  \<open>Math.min(...xs)\<close> and \<open>Math.max(...xs)\<close> of an array: \<open>Infinity\<close> and \<open>-Infinity\<close>
  on the empty array.
\<close>

definition Math_min :: "num list \<Rightarrow> num" where
  "Math_min xs = fold fmin2 xs PInf"

definition Math_max :: "num list \<Rightarrow> num" where
  "Math_max xs = fold fmax2 xs NInf"

text \<open>\<open>a || b\<close> on numbers: \<open>0\<close> and \<open>NaN\<close> are falsy.\<close>

definition or_num :: "num \<Rightarrow> num \<Rightarrow> num" where
  "or_num a b = (if a = Fin 0 \<or> a = NaN then b else a)"

section \<open>Strings and cell values\<close>

text \<open>
  A character of a string is an 8-bit \<open>char\<close>. \<open>s.trim()\<close> removes the white space and
  line terminators at both ends.
\<close>

definition isWhite :: "char \<Rightarrow> bool" where
  "isWhite c = (c = CHR 0x09 \<or> c = CHR 0x0A \<or> c = CHR 0x0B \<or> c = CHR 0x0C \<or> c = CHR 0x0D
     \<or> c = CHR 0x20 \<or> c = CHR 0xA0)"

definition trim :: "string \<Rightarrow> string" where
  "trim s = rev (dropWhile isWhite (rev (dropWhile isWhite s)))"

text \<open>
  A cell of a data row is a number, a string or \<open>undefined\<close>; a read of a row can also
  give an object or function that every object inherits (\<open>JObject\<close>). \<open>Number(v)\<close> is the
  conversion of the language: a number is itself, \<open>undefined\<close> and the inherited objects
  give \<open>NaN\<close>, and a string that is empty or consists of white space gives 0. What the
  built-in conversion makes of any other string is the parameter \<open>strToNum\<close> of every
  function that converts.
\<close>

datatype jsval = JNum num | JStr string | JUndefined | JObject

definition Number :: "(string \<Rightarrow> num) \<Rightarrow> jsval \<Rightarrow> num" where
  "Number strToNum v =
     (case v of
        JNum r \<Rightarrow> r
      | JStr s \<Rightarrow> if trim s = [] then Fin 0 else strToNum s
      | JUndefined \<Rightarrow> NaN
      | JObject \<Rightarrow> NaN)"

text \<open>\<open>xs[i]\<close> of an array: \<open>undefined\<close> (here \<open>None\<close>) outside the array.\<close>

definition elem_at :: "'a list \<Rightarrow> int \<Rightarrow> 'a option" where
  "elem_at xs i = (if 0 \<le> i \<and> i < int (length xs) then Some (xs ! nat i) else None)"

section \<open>Chart helpers\<close>

text \<open>
  \<open>scale\<close> and \<open>getQuantiles\<close> are stated for finite numbers, written as reals;
  \<open>getQuantiles\<close> only compares and reads them.
\<close>

subsection \<open>scale\<close>

definition scale :: "real \<Rightarrow> real \<Rightarrow> real \<Rightarrow> real \<Rightarrow> real \<Rightarrow> real" where
  "scale val mn mx outMin outMax =
     (if mx = mn then (outMin + outMax) / 2
      else outMin + ((val - mn) / (mx - mn)) * (outMax - outMin))"

subsection \<open>getQuantiles\<close>

text \<open>
  The five fields are array reads, so each is a number or \<open>undefined\<close>. The array is
  copied and sorted ascending by the comparator \<open>a - b\<close>.
\<close>

record quantiles =
  q_min :: "real option"
  q1 :: "real option"
  median :: "real option"
  q3 :: "real option"
  q_max :: "real option"

definition getQuantiles :: "real list \<Rightarrow> quantiles" where
  "getQuantiles vals =
     (if length vals = 0
      then \<lparr>q_min = Some 0, q1 = Some 0, median = Some 0, q3 = Some 0, q_max = Some 0\<rparr>
      else let srt = sort vals in
        \<lparr>q_min = elem_at srt 0,
         q1 = elem_at srt \<lfloor>real (length srt) * 0.25\<rfloor>,
         median = elem_at srt \<lfloor>real (length srt) * 0.5\<rfloor>,
         q3 = elem_at srt \<lfloor>real (length srt) * 0.75\<rfloor>,
         q_max = elem_at srt (int (length srt) - 1)\<rparr>)"

subsection \<open>getDensity\<close>

text \<open>
  \<open>bins[idx]++\<close> on an array of counters. When \<open>idx\<close> is an index of the array it adds
  one to that counter. When \<open>idx\<close> is \<open>NaN\<close>, an infinity, negative or not an integer,
  JavaScript writes a property that is no element of the array, so the counters stay as
  they are. An integer \<open>idx\<close> at or beyond the length cannot come from the callers, which
  clamp it to \<open>binCount - 1\<close> on an array of length \<open>binCount\<close>.
\<close>

definition bump :: "nat list \<Rightarrow> num \<Rightarrow> nat list" where
  "bump bins idx =
     (case idx of
        Fin r \<Rightarrow>
          if r = of_int \<lfloor>r\<rfloor> \<and> 0 \<le> r \<and> r < real (length bins)
          then bins[nat \<lfloor>r\<rfloor> := bins ! nat \<lfloor>r\<rfloor> + 1] else bins
      | _ \<Rightarrow> bins)"

text \<open>\<open>max - min || 1\<close>: a zero difference is falsy and gives 1.\<close>

definition density_range :: "num list \<Rightarrow> num" where
  "density_range vals = or_num (fsub (Math_max vals) (Math_min vals)) (Fin 1)"

definition density_idx :: "num list \<Rightarrow> nat \<Rightarrow> num \<Rightarrow> num" where
  "density_idx vals binCount v =
     fmin2 (ffloor (fmul (fdiv (fsub v (Math_min vals)) (density_range vals)) (Fin (real binCount))))
       (fsub (Fin (real binCount)) (Fin 1))"

definition density_bins :: "num list \<Rightarrow> nat \<Rightarrow> nat list" where
  "density_bins vals binCount =
     fold (\<lambda>v bins. bump bins (density_idx vals binCount v)) vals (replicate binCount 0)"

text \<open>
  \<open>arr[j] || val\<close>: the neighbour's count, or \<open>val\<close> when the read is falsy, which is
  the case for \<open>undefined\<close> (index outside the array) and for the number 0. The counts
  are small integers, so \<open>(prev + val * 2 + next) / 4\<close> is exact and is written as a real.
\<close>

definition or_val :: "nat option \<Rightarrow> nat \<Rightarrow> nat" where
  "or_val r val = (case r of None \<Rightarrow> val | Some c \<Rightarrow> if c = 0 then val else c)"

definition smoothed :: "nat list \<Rightarrow> real list" where
  "smoothed arr =
     map (\<lambda>i. let val = arr ! i;
                 prev = or_val (elem_at arr (int i - 1)) val;
                 next = or_val (elem_at arr (int i + 1)) val
             in (real prev + real val * 2 + real next) / 4)
         [0..<length arr]"

text \<open>A point of the curve is the pair \<open>(x, y)\<close>. The default \<open>binCount\<close> is 30.\<close>

definition getDensity :: "num list \<Rightarrow> nat \<Rightarrow> (num \<times> real) list" where
  "getDensity vals binCount =
     (if length vals = 0 then []
      else let sm = smoothed (density_bins vals binCount) in
        map (\<lambda>i. (fadd (Math_min vals)
                     (fmul (fdiv (Fin (real i)) (Fin (real binCount))) (density_range vals)),
                   sm ! i))
            [0..<length sm])"

subsection \<open>calculateCorrelation\<close>

text \<open>
  \<open>reduce\<close> is a left fold from 0. The guard on the lengths comes first, so \<open>y[i]\<close> is
  read inside \<open>y\<close>. \<open>denominator === 0\<close> is false for \<open>NaN\<close>.
\<close>

definition calculateCorrelation :: "num list \<Rightarrow> num list \<Rightarrow> num" where
  "calculateCorrelation xs ys =
     (let n = length xs in
      if n \<noteq> length ys \<or> n = 0 then Fin 0
      else let sumX = foldl (\<lambda>a b. fadd a b) (Fin 0) xs;
               sumY = foldl (\<lambda>a b. fadd a b) (Fin 0) ys;
               sumXY = foldl (\<lambda>s (xi, i). fadd s (fmul xi (ys ! i))) (Fin 0) (zip xs [0..<n]);
               sumX2 = foldl (\<lambda>s xi. fadd s (fmul xi xi)) (Fin 0) xs;
               sumY2 = foldl (\<lambda>s yi. fadd s (fmul yi yi)) (Fin 0) ys;
               numerator = fsub (fmul (Fin (real n)) sumXY) (fmul sumX sumY);
               denominator =
                 fsqrt (fmul (fsub (fmul (Fin (real n)) sumX2) (fmul sumX sumX))
                             (fsub (fmul (Fin (real n)) sumY2) (fmul sumY sumY)))
           in if denominator = Fin 0 then Fin 0 else fdiv numerator denominator)"

section \<open>Chart renderer: data processing\<close>

text \<open>
  The renderer receives the chart type, the sampled rows and the column profiles. A row is
  an object from column name to cell. Reading a key that the row does not have gives what
  every object inherits under that name, and \<open>undefined\<close> otherwise. Of the seven branches
  of the processing step the histogram / density branch (the first) and the heatmap branch
  (the last) are modelled; every branch between them requires another chart type.
\<close>

datatype ChartTypeId =
  HISTOGRAM | BAR | BOX | VIOLIN | SCATTER | LINE | DENSITY | RIDGELINE | HEATMAP | AREA

datatype colType = numeric | categorical | date | unknown

record column =
  col_name :: string
  col_type :: colType
  uniqueCount :: nat
  sample :: "string option list"

type_synonym row = "string \<rightharpoonup> jsval"

definition inherited :: "string list" where
  "inherited =
     [''constructor'', ''__defineGetter__'', ''__defineSetter__'', ''hasOwnProperty'',
      ''__lookupGetter__'', ''__lookupSetter__'', ''isPrototypeOf'', ''propertyIsEnumerable'',
      ''toString'', ''valueOf'', ''__proto__'', ''toLocaleString'']"

definition cell :: "row \<Rightarrow> string \<Rightarrow> jsval" where
  "cell d col =
     (case d col of
        Some v \<Rightarrow> v
      | None \<Rightarrow> if col \<in> set inherited then JObject else JUndefined)"

definition numCols :: "column list \<Rightarrow> string list" where
  "numCols cols = map col_name (filter (\<lambda>c. col_type c = numeric) cols)"

definition catCols :: "column list \<Rightarrow> string list" where
  "catCols cols = map col_name (filter (\<lambda>c. col_type c = categorical) cols)"

text \<open>\<open>getNums\<close>: convert the column's cell of every row, then drop the \<open>NaN\<close> results.\<close>

definition getNums :: "(string \<Rightarrow> num) \<Rightarrow> row list \<Rightarrow> string \<Rightarrow> num list" where
  "getNums strToNum rows col =
     filter (\<lambda>n. n \<noteq> NaN) (map (\<lambda>d. Number strToNum (cell d col)) rows)"

text \<open>
  The result of the processing step, tagged as the source tags it. Of the histogram's
  result the formatted tick labels are left out; its values are the bin counters. The
  density's \<open>range\<close> is \<open>[min, max]\<close>. A heatmap cell is \<open>(x, y, value)\<close>.
\<close>

datatype chart =
  DensityChart "(num \<times> real) list" string "num \<times> num"
  | BarChart "nat list" string string
  | HeatmapChart "(string \<times> string \<times> num) list" "string list" nat

definition hist_binCount :: nat where
  "hist_binCount = 15"

text \<open>\<open>(max - min) / binCount || 1\<close>: a zero width is falsy and gives 1.\<close>

definition hist_binSize :: "num list \<Rightarrow> num" where
  "hist_binSize vals =
     or_num (fdiv (fsub (Math_max vals) (Math_min vals)) (Fin (real hist_binCount))) (Fin 1)"

definition hist_idx :: "num list \<Rightarrow> num \<Rightarrow> num" where
  "hist_idx vals v =
     fmin2 (ffloor (fdiv (fsub v (Math_min vals)) (hist_binSize vals)))
       (fsub (Fin (real hist_binCount)) (Fin 1))"

definition hist_bins :: "num list \<Rightarrow> nat list" where
  "hist_bins vals =
     fold (\<lambda>v bins. bump bins (hist_idx vals v)) vals (replicate hist_binCount 0)"

definition histogram_density_branch ::
  "(string \<Rightarrow> num) \<Rightarrow> ChartTypeId \<Rightarrow> row list \<Rightarrow> column list \<Rightarrow> chart option" where
  "histogram_density_branch strToNum ty rows cols =
     (if (ty = HISTOGRAM \<or> ty = DENSITY) \<and> length (numCols cols) > 0
      then let col = numCols cols ! 0;
               vals = getNums strToNum rows col
           in if ty = DENSITY
              then Some (DensityChart (getDensity vals 30) col (Math_min vals, Math_max vals))
              else Some (BarChart (hist_bins vals) col ''Count'')
      else None)"

definition heatmap_branch ::
  "(string \<Rightarrow> num) \<Rightarrow> ChartTypeId \<Rightarrow> row list \<Rightarrow> column list \<Rightarrow> chart option" where
  "heatmap_branch strToNum ty rows cols =
     (if ty = HEATMAP \<and> length (numCols cols) \<ge> 2
      then let cs = take 6 (numCols cols) in
        Some (HeatmapChart
          (concat (map (\<lambda>i. map (\<lambda>j.
              (cs ! i, cs ! j,
               calculateCorrelation (getNums strToNum rows (cs ! i)) (getNums strToNum rows (cs ! j))))
            [0..<length cs]) [0..<length cs]))
          cs (length cs))
      else None)"

section \<open>The sampler: analyzeCSV\<close>

text \<open>
  The file reader hands the callback the text decoded from the first \<open>CHUNK_SIZE\<close> bytes
  of the file; the model takes that text and \<open>file.size\<close> as its inputs. The promise
  is rejected with a message (\<open>Inl\<close>) or resolved with the summary (\<open>Inr\<close>).
\<close>

definition CHUNK_SIZE :: nat where
  "CHUNK_SIZE = 50 * 1024"

text \<open>\<open>s.split(c)\<close> for a one-character separator: the empty string gives one empty field.\<close>

fun split :: "char \<Rightarrow> string \<Rightarrow> string list" where
  "split c [] = [[]]"
| "split c (x # xs) =
     (if x = c then [] # split c xs
      else (case split c xs of [] \<Rightarrow> [[x]] | w # ws \<Rightarrow> (x # w) # ws))"

record DatasetStats =
  rowCount :: num
  colCount :: nat
  columns :: "column list"
  data :: "row list"

text \<open>
  The lines of the sample: split at line feeds, without the last line when the file is
  larger than the chunk, without the lines that are blank after trimming.
\<close>

definition sample_lines :: "nat \<Rightarrow> string \<Rightarrow> string list" where
  "sample_lines fileSize text =
     filter (\<lambda>l. length (trim l) > 0)
       (let ls = split (CHR 0x0A) text in if fileSize > CHUNK_SIZE then butlast ls else ls)"

text \<open>
  The estimate, in the arithmetic of the language: the quotient \<open>file.size / CHUNK_SIZE\<close>
  is rounded, its product with the number of lines is rounded, and the floor is taken.
  The length of an array is below \<open>2^32\<close>, so \<open>lines.length - 1\<close> is exact.
\<close>

definition estimatedTotalRows :: "nat \<Rightarrow> string list \<Rightarrow> num" where
  "estimatedTotalRows fileSize ls =
     (if fileSize > CHUNK_SIZE
      then ffloor (fmul (fdiv (Fin (real fileSize)) (Fin (real CHUNK_SIZE))) (Fin (real (length ls))))
      else Fin (real (length ls) - 1))"

text \<open>\<open>row[index]?.trim()\<close>: the trimmed field, or \<open>undefined\<close> when the row is too short.\<close>

definition field :: "string list \<Rightarrow> nat \<Rightarrow> string option" where
  "field r index = map_option trim (elem_at r (int index))"

definition as_jsval :: "string option \<Rightarrow> jsval" where
  "as_jsval val = (case val of None \<Rightarrow> JUndefined | Some s \<Rightarrow> JStr s)"

text \<open>\<open>!isNaN(Number(val)) && val !== ''\<close>\<close>

definition looksNumeric :: "(string \<Rightarrow> num) \<Rightarrow> string option \<Rightarrow> bool" where
  "looksNumeric strToNum val = (Number strToNum (as_jsval val) \<noteq> NaN \<and> val \<noteq> Some [])"

definition profile_column ::
  "(string \<Rightarrow> num) \<Rightarrow> string list \<Rightarrow> string \<Rightarrow> nat \<Rightarrow> column" where
  "profile_column strToNum ls name index =
     (let sampleRows = map (split (CHR '','')) (take 5 (drop 1 ls));
          vals = map (\<lambda>r. field r index) sampleRows;
          isNumeric = list_all (looksNumeric strToNum) vals;
          allValuesInCol = map (\<lambda>l. field (split (CHR '','') l) index) (take 100 (drop 1 ls))
      in \<lparr>col_name = name,
          col_type = (if isNumeric then numeric else categorical),
          uniqueCount = length (remdups allValuesInCol),
          sample = take 3 vals\<rparr>)"

text \<open>
  \<open>obj[h] = ...\<close> for every header. An assignment of a number, a string or \<open>undefined\<close>
  to the key \<open>__proto__\<close> stores nothing.
\<close>

definition parse_row :: "(string \<Rightarrow> num) \<Rightarrow> string list \<Rightarrow> string \<Rightarrow> row" where
  "parse_row strToNum headers line =
     (let vals = split (CHR '','') line in
      fold (\<lambda>(h, i) obj.
             let val = field vals i in
             if h = ''__proto__'' then obj
             else obj(h \<mapsto> (if looksNumeric strToNum val
                             then JNum (Number strToNum (as_jsval val)) else as_jsval val)))
           (zip headers [0..<length headers]) Map.empty)"

definition analyzeCSV :: "(string \<Rightarrow> num) \<Rightarrow> nat \<Rightarrow> string \<Rightarrow> string + DatasetStats" where
  "analyzeCSV strToNum fileSize text =
     (if text = [] then Inl ''Empty file''
      else let ls = sample_lines fileSize text in
        if length ls < 2 then Inl ''Invalid CSV: Not enough rows''
        else let headers = map trim (split (CHR '','') (ls ! 0)) in
          Inr \<lparr>rowCount = estimatedTotalRows fileSize ls,
               colCount = length headers,
               columns = map (\<lambda>(name, index). profile_column strToNum ls name index)
                           (zip headers [0..<length headers]),
               data = map (parse_row strToNum headers) (take 100 (drop 1 ls))\<rparr>)"

section \<open>Sample inputs\<close>

text \<open>
  A conversion that agrees with the built-in one on the strings of the sample below: a
  one-digit string is its digit, the letters are \<open>NaN\<close>.
\<close>

definition oneDigit :: "string \<Rightarrow> num" where
  "oneDigit s =
     (case map_of [(''0'', 0), (''1'', 1), (''2'', 2), (''3'', 3), (''4'', 4), (''5'', 5),
        (''6'', 6), (''7'', 7), (''8'', 8), (''9'', 9)] s of
        Some r \<Rightarrow> Fin r
      | None \<Rightarrow> NaN)"

text \<open>
  The text \<open>a,b / 1,x / 2,y / 3,z / 4,w / 5,v / ,u\<close>, one row per line, 27 bytes: the
  sixth data row has an empty first field.
\<close>

definition gap_csv :: string where
  "gap_csv = ''a,b'' @ [CHR 0x0A] @ ''1,x'' @ [CHR 0x0A] @ ''2,y'' @ [CHR 0x0A] @ ''3,z'' @ [CHR 0x0A]
          @ ''4,w'' @ [CHR 0x0A] @ ''5,v'' @ [CHR 0x0A] @ '',u'' @ [CHR 0x0A]"

text \<open>
  The text \<open>a,b / 1,x / 2,y / 3,z\<close> of the specification's scenario, a line feed after
  every row, 16 bytes.
\<close>

definition scenario_csv :: string where
  "scenario_csv =
     ''a,b'' @ [CHR 0x0A] @ ''1,x'' @ [CHR 0x0A] @ ''2,y'' @ [CHR 0x0A] @ ''3,z'' @ [CHR 0x0A]"

text \<open>
  A chunk of exactly 50 KiB, read from a file of 100 KiB: a header, one complete data row
  and the beginning of a long row that the chunk cuts.
\<close>

definition large_csv :: string where
  "large_csv = ''a'' @ [CHR 0x0A] @ ''1'' @ [CHR 0x0A] @ replicate 51196 (CHR ''7'')"

text \<open>
  A chunk of exactly 50 KiB, read from a file of 58 KiB (59392 bytes): a header, 24 complete
  data rows and the beginning of a long row that the chunk cuts.
\<close>

definition cut_csv :: string where
  "cut_csv = ''a'' @ [CHR 0x0A] @ concat (replicate 24 (''1'' @ [CHR 0x0A])) @ replicate 51150 (CHR ''7'')"

section \<open>Definitions that follow the specification's wording\<close>

text \<open>
  The smoothing as the specification words it: \<open>(prev + 2 * curr + next) / 4\<close>, where a
  neighbour whose index is outside the array is replaced by the current count and a
  neighbour inside the array contributes its own count.
\<close>

definition spec_smoothed :: "nat list \<Rightarrow> real list" where
  "spec_smoothed arr =
     map (\<lambda>i. let curr = arr ! i;
                 prev = (case elem_at arr (int i - 1) of None \<Rightarrow> curr | Some c \<Rightarrow> c);
                 next = (case elem_at arr (int i + 1) of None \<Rightarrow> curr | Some c \<Rightarrow> c)
             in (real prev + 2 * real curr + real next) / 4)
         [0..<length arr]"

text \<open>
  The number of non-missing numeric values of a column among the rows, as the
  specification words it: the rows whose cell of that column holds a number.
\<close>

definition spec_numeric_count :: "row list \<Rightarrow> string \<Rightarrow> nat" where
  "spec_numeric_count rows col =
     length (filter (\<lambda>d. case cell d col of JNum r \<Rightarrow> True | _ \<Rightarrow> False) rows)"

section \<open>Auxiliary definition\<close>


section \<open>Properties of the rounding\<close>

lemma rhe_of_int [simp]: "rhe (of_int k) = k"
  by (simp add: rhe_def)

lemma rhe_bounds: "of_int (rhe x) \<le> x + 1 / 2" "x - 1 / 2 \<le> of_int (rhe x)"
  unfolding rhe_def Let_def by (auto; linarith)+

lemma rhe_mono: "x \<le> y \<Longrightarrow> rhe x \<le> rhe y"
proof -
  assume xy: "x \<le> y"
  have fxy: "\<lfloor>x\<rfloor> \<le> \<lfloor>y\<rfloor>" using xy by (rule floor_mono)
  show ?thesis
  proof (cases "\<lfloor>x\<rfloor> = \<lfloor>y\<rfloor>")
    case True
    then show ?thesis using xy unfolding rhe_def Let_def by auto
  next
    case False
    then have "\<lfloor>x\<rfloor> + 1 \<le> \<lfloor>y\<rfloor>" using fxy by simp
    moreover have "rhe x \<le> \<lfloor>x\<rfloor> + 1" unfolding rhe_def Let_def by auto
    moreover have "\<lfloor>y\<rfloor> \<le> rhe y" unfolding rhe_def Let_def by auto
    ultimately show ?thesis by linarith
  qed
qed

lemma rhe_0 [simp]: "rhe 0 = 0"
  by (simp add: rhe_def)

lemma rhe_nonneg: "0 \<le> x \<Longrightarrow> 0 \<le> rhe x"
  using rhe_mono [of 0 x] by simp

lemma powr2: "(2::real) powr (real_of_int e) = 2 powi e"
  by (simp add: powr_real_of_int')

lemma powr2': "(2::real) powr (real_of_int e + 1) = 2 powi (e + 1)"
  using powr2 [of "e + 1"] by simp

text \<open>The binade of a positive number.\<close>

lemma binade:
  assumes "0 < x"
  shows "2 powi \<lfloor>log 2 x\<rfloor> \<le> x" and "x < 2 powi (\<lfloor>log 2 x\<rfloor> + 1)"
proof -
  have "2 powr (real_of_int \<lfloor>log 2 x\<rfloor>) \<le> x \<and> x < 2 powr (real_of_int (\<lfloor>log 2 x\<rfloor> + 1))"
    using floor_log_eq_powr_iff [of x 2 "\<lfloor>log 2 x\<rfloor>"] assms by simp
  then show "2 powi \<lfloor>log 2 x\<rfloor> \<le> x" and "x < 2 powi (\<lfloor>log 2 x\<rfloor> + 1)"
    by (simp_all add: powr2 powr2')
qed

lemma floor_log2_eq:
  assumes "2 powi e \<le> x" and "x < 2 powi (e + 1)"
  shows "\<lfloor>log 2 x\<rfloor> = e"
proof -
  have p: "0 < x" using assms(1) zero_less_power_int [of "2::real" e] by linarith
  have "2 powr (real_of_int e) \<le> x \<and> x < 2 powr (real_of_int (e + 1))"
    using assms by (simp add: powr2 powr2')
  then show ?thesis using floor_log_eq_powr_iff [of x 2 e] p by simp
qed

lemma ulp_pos: "0 < ulp x"
  by (simp add: ulp_def)

lemma expo_mono: "0 < x \<Longrightarrow> x \<le> y \<Longrightarrow> expo x \<le> expo y"
proof -
  assume "0 < x" and "x \<le> y"
  then have "log 2 x \<le> log 2 y" by simp
  then have "\<lfloor>log 2 x\<rfloor> \<le> \<lfloor>log 2 y\<rfloor>" by (rule floor_mono)
  then show ?thesis using \<open>0 < x\<close> \<open>x \<le> y\<close> by (simp add: expo_def)
qed

lemma below_next_binade: "0 < x \<Longrightarrow> x < 2 powi (expo x + 1)"
proof -
  assume p: "0 < x"
  have "\<lfloor>log 2 x\<rfloor> + 1 \<le> expo x + 1" using p by (simp add: expo_def)
  then have "(2::real) powi (\<lfloor>log 2 x\<rfloor> + 1) \<le> 2 powi (expo x + 1)"
    by (intro power_int_increasing) auto
  then show ?thesis using binade(2) [OF p] by linarith
qed

lemma expo_normal: "2 powi (- 1022) \<le> x \<Longrightarrow> expo x = \<lfloor>log 2 x\<rfloor>"
proof -
  assume n: "2 powi (- 1022) \<le> x"
  have p: "0 < x" using n zero_less_power_int [of "2::real" "- 1022"] by linarith
  have "2 powr (real_of_int (- 1022)) \<le> x" using n by (simp only: powr2)
  then have "real_of_int (- 1022) \<le> log 2 x" using p by (simp only: le_log_iff [of 2 x] one_less_numeral_iff semiring_norm)
  then have "- 1022 \<le> \<lfloor>log 2 x\<rfloor>" by (simp only: le_floor_iff)
  then show ?thesis using p by (simp add: expo_def)
qed

lemma above_binade: "2 powi (- 1022) \<le> x \<Longrightarrow> 2 powi (expo x) \<le> x"
proof -
  assume n: "2 powi (- 1022) \<le> x"
  have p: "0 < x" using n zero_less_power_int [of "2::real" "- 1022"] by linarith
  show ?thesis using binade(1) [OF p] expo_normal [OF n] by simp
qed

lemma ulp_times52: "ulp x * 2 powi 52 = 2 powi (expo x)"
proof -
  have "(2::real) powi (expo x - 52 + 52) = 2 powi (expo x - 52) * 2 powi 52"
    by (rule power_int_add) simp
  moreover have "expo x - 52 + 52 = expo x" by simp
  ultimately show ?thesis unfolding ulp_def by (simp only:)
qed

lemma ulp_times53: "ulp x * 2 powi 53 = 2 powi (expo x + 1)"
proof -
  have "(2::real) powi (expo x - 52 + 53) = 2 powi (expo x - 52) * 2 powi 53"
    by (rule power_int_add) simp
  moreover have "expo x - 52 + 53 = expo x + 1" by simp
  ultimately show ?thesis unfolding ulp_def by (simp only:)
qed

lemma powi52: "(2::real) powi 52 = of_int (2 ^ 52)" and powi53: "(2::real) powi 53 = of_int (2 ^ 53)"
  by simp_all

lemma rnd_upper: "0 < x \<Longrightarrow> rnd x \<le> 2 powi (expo x + 1)"
proof -
  assume p: "0 < x"
  have "x < 2 powi 53 * ulp x"
    using below_next_binade [OF p] by (simp only: ulp_times53 [symmetric] mult.commute)
  then have "x / ulp x < 2 powi 53"
    using ulp_pos [of x] by (simp only: pos_divide_less_eq)
  then have "x / ulp x \<le> of_int (2 ^ 53)" by (simp only: powi53)
  then have "rhe (x / ulp x) \<le> rhe (of_int (2 ^ 53))" by (rule rhe_mono)
  then have "rhe (x / ulp x) \<le> 2 ^ 53" by (simp only: rhe_of_int)
  then have "real_of_int (rhe (x / ulp x)) \<le> of_int (2 ^ 53)" by (simp only: of_int_le_iff)
  then have "real_of_int (rhe (x / ulp x)) * ulp x \<le> of_int (2 ^ 53) * ulp x"
    using ulp_pos [of x] by (intro mult_right_mono) simp_all
  then show ?thesis
    unfolding rnd_def by (simp only: powi53 [symmetric] ulp_times53 [symmetric] mult.commute)
qed

lemma rnd_lower: "2 powi (expo x) \<le> x \<Longrightarrow> 2 powi (expo x) \<le> rnd x"
proof -
  assume l: "2 powi (expo x) \<le> x"
  have "2 powi 52 * ulp x \<le> x"
    using l by (simp only: ulp_times52 [symmetric] mult.commute)
  then have "2 powi 52 \<le> x / ulp x"
    using ulp_pos [of x] by (simp only: pos_le_divide_eq)
  then have "of_int (2 ^ 52) \<le> x / ulp x" by (simp only: powi52)
  then have "rhe (of_int (2 ^ 52)) \<le> rhe (x / ulp x)" by (rule rhe_mono)
  then have "2 ^ 52 \<le> rhe (x / ulp x)" by (simp only: rhe_of_int)
  then have "of_int (2 ^ 52) \<le> real_of_int (rhe (x / ulp x))" by (simp only: of_int_le_iff)
  then have "of_int (2 ^ 52) * ulp x \<le> real_of_int (rhe (x / ulp x)) * ulp x"
    using ulp_pos [of x] by (intro mult_right_mono) simp_all
  then show ?thesis
    unfolding rnd_def by (simp only: powi52 [symmetric] ulp_times52 [symmetric] mult.commute)
qed

lemma rnd_nonneg: "0 \<le> x \<Longrightarrow> 0 \<le> rnd x"
proof -
  assume "0 \<le> x"
  then have "0 \<le> x / ulp x" using ulp_pos [of x] by simp
  then have "0 \<le> rhe (x / ulp x)" by (rule rhe_nonneg)
  then show ?thesis using ulp_pos [of x] by (simp add: rnd_def)
qed

lemma rnd_mono: "0 < x \<Longrightarrow> x \<le> y \<Longrightarrow> rnd x \<le> rnd y"
proof -
  assume p: "0 < x" and xy: "x \<le> y"
  have py: "0 < y" using p xy by linarith
  have e: "expo x \<le> expo y" using p xy by (rule expo_mono)
  show ?thesis
  proof (cases "expo x = expo y")
    case True
    then have u: "ulp x = ulp y" by (simp add: ulp_def)
    have "x / ulp y \<le> y / ulp y" using xy ulp_pos [of y] by (simp add: divide_right_mono)
    then have "rhe (x / ulp y) \<le> rhe (y / ulp y)" by (rule rhe_mono)
    then have "real_of_int (rhe (x / ulp y)) \<le> real_of_int (rhe (y / ulp y))" by simp
    then have "real_of_int (rhe (x / ulp y)) * ulp y \<le> real_of_int (rhe (y / ulp y)) * ulp y"
      using ulp_pos [of y] by (intro mult_right_mono) simp_all
    then show ?thesis by (simp only: rnd_def u)
  next
    case False
    then have lt: "expo x + 1 \<le> expo y" using e by simp
    then have "- 1022 < expo y" by (simp add: expo_def)
    then have ey: "expo y = \<lfloor>log 2 y\<rfloor>" using py by (simp add: expo_def max_def split: if_splits)
    have "2 powi (expo y) \<le> y" using binade(1) [OF py] ey by simp
    then have "2 powi (expo y) \<le> rnd y" by (rule rnd_lower)
    moreover have "rnd x \<le> 2 powi (expo x + 1)" using p by (rule rnd_upper)
    moreover have "(2::real) powi (expo x + 1) \<le> 2 powi (expo y)"
      using lt by (intro power_int_increasing) auto
    ultimately show ?thesis by linarith
  qed
qed

lemma fl_0 [simp]: "fl 0 = Fin 0"
  by (simp add: fl_def)

lemma fl_nonneg_cases: "0 \<le> x \<Longrightarrow> fl x = PInf \<or> (\<exists>a. fl x = Fin a \<and> 0 \<le> a)"
  using rnd_nonneg [of x] by (auto simp: fl_def)

lemma fl_mono_fin:
  assumes "0 \<le> x" and "x \<le> y" and "fl y = Fin b"
  shows "\<exists>a. fl x = Fin a \<and> 0 \<le> a \<and> a \<le> b"
proof (cases "x = 0")
  case True
  have "0 \<le> y" using assms(1,2) by linarith
  then have "0 \<le> b" using fl_nonneg_cases [of y] assms(3) by auto
  then show ?thesis using True by simp
next
  case False
  then have p: "0 < x" using assms(1) by linarith
  then have py: "0 < y" using assms(2) by linarith
  have m: "rnd x \<le> rnd y" using p assms(2) by (rule rnd_mono)
  have nx: "0 \<le> rnd x" using assms(1) by (rule rnd_nonneg)
  have ny: "0 \<le> rnd y" using py by (intro rnd_nonneg) simp
  from assms(3) py ny have bv: "b = rnd y" and fin: "\<not> 2 powi 1024 \<le> rnd y"
    by (auto simp: fl_def split: if_splits)
  then have "\<not> 2 powi 1024 \<le> \<bar>rnd x\<bar>" using m nx by linarith
  then have "fl x = Fin (rnd x)" using False by (simp add: fl_def)
  then show ?thesis using m nx bv by simp
qed

lemma fl_mono_above:
  assumes "0 \<le> c" and "fl c = Fin c'" and "c \<le> y"
  shows "fl y = PInf \<or> (\<exists>b. fl y = Fin b \<and> c' \<le> b)"
proof -
  have "0 \<le> y" using assms(1,3) by linarith
  then consider "fl y = PInf" | b where "fl y = Fin b" using fl_nonneg_cases [of y] by auto
  then show ?thesis
  proof cases
    case 1
    then show ?thesis by simp
  next
    case 2
    from fl_mono_fin [OF assms(1,3) 2] assms(2) have "c' \<le> b" by auto
    then show ?thesis using 2 by simp
  qed
qed

text \<open>Integers below \<open>2^53\<close> in magnitude are doubles.\<close>

lemma expo_small_int:
  assumes "k \<noteq> 0" and "\<bar>k\<bar> < 2 ^ 53"
  shows "0 \<le> expo (of_int k)" and "expo (of_int k) \<le> 52"
proof -
  let ?x = "\<bar>real_of_int k\<bar>"
  have "1 \<le> \<bar>k\<bar>" using assms(1) by linarith
  then have "real_of_int 1 \<le> real_of_int \<bar>k\<bar>" by (simp only: of_int_le_iff)
  then have one: "1 \<le> ?x" by simp
  have p: "0 < ?x" using one by linarith
  have l0: "0 \<le> log 2 ?x" using one by simp
  then have f0: "0 \<le> \<lfloor>log 2 ?x\<rfloor>" by simp
  then have e: "expo (of_int k) = \<lfloor>log 2 ?x\<rfloor>" by (simp add: expo_def)
  show "0 \<le> expo (of_int k)" using e f0 by simp
  have lt: "?x < 2 powi 53"
  proof -
    have "real_of_int \<bar>k\<bar> < real_of_int (2 ^ 53)" using assms(2) by (simp only: of_int_less_iff)
    then show ?thesis by (simp only: powi53 of_int_abs)
  qed
  show "expo (of_int k) \<le> 52"
  proof (rule ccontr)
    assume "\<not> expo (of_int k) \<le> 52"
    then have "53 \<le> \<lfloor>log 2 ?x\<rfloor>" using e by simp
    then have "(2::real) powi 53 \<le> 2 powi \<lfloor>log 2 ?x\<rfloor>"
      by (intro power_int_increasing) auto
    then show False using binade(1) [OF p] lt by linarith
  qed
qed

lemma rnd_of_int:
  assumes "\<bar>k\<bar> < 2 ^ 53"
  shows "rnd (of_int k) = of_int k"
proof (cases "k = 0")
  case True
  then show ?thesis by (simp add: rnd_def)
next
  case False
  define j where "j = nat (52 - expo (of_int k))"
  have e: "expo (real_of_int k) - 52 = - int j"
    using expo_small_int(2) [OF False assms] by (simp add: j_def)
  have u: "ulp (of_int k) = 1 / 2 ^ j"
    unfolding ulp_def e by (simp add: power_int_minus field_simps)
  have "real_of_int k / ulp (of_int k) = of_int (k * 2 ^ j)"
    by (simp add: u)
  then have "rhe (real_of_int k / ulp (of_int k)) = k * 2 ^ j"
    by (simp only: rhe_of_int)
  then show ?thesis by (simp add: rnd_def u)
qed

lemma fl_of_int: "\<bar>k\<bar> < 2 ^ 53 \<Longrightarrow> fl (of_int k) = Fin (of_int k)"
proof -
  assume a: "\<bar>k\<bar> < 2 ^ 53"
  have "real_of_int \<bar>k\<bar> < real_of_int (2 ^ 53)" using a by (simp only: of_int_less_iff)
  then have "\<bar>real_of_int k\<bar> < 2 powi 53" by (simp only: powi53 of_int_abs)
  moreover have "(2::real) powi 53 \<le> 2 powi 1024" by (intro power_int_increasing) auto
  ultimately have "\<not> 2 powi 1024 \<le> \<bar>real_of_int k\<bar>" by linarith
  then show ?thesis by (simp add: fl_def rnd_of_int [OF a])
qed

lemma fl_of_nat: "n < 2 ^ 53 \<Longrightarrow> fl (real n) = Fin (real n)"
  using fl_of_int [of "int n"] by (simp add: of_nat_less_numeral_power_cancel_iff)

lemma fl_numeral: "(numeral n :: int) < 2 ^ 53 \<Longrightarrow> fl (numeral n) = Fin (numeral n)"
  using fl_of_int [of "numeral n"] by simp

lemma fl_1 [simp]: "fl 1 = Fin 1"
  using fl_of_int [of 1] by simp

text \<open>Above the subnormal range the rounding error is at most \<open>2^-53\<close> of the value.\<close>

lemma fl_normal:
  assumes "2 powi (- 1022) \<le> y" and "fl y = Fin z"
  shows "z \<le> y + y * 2 powi (- 53)" and "0 < z"
proof -
  have p: "0 < y" using assms(1) zero_less_power_int [of "2::real" "- 1022"] by linarith
  have ny: "0 \<le> rnd y" using p by (intro rnd_nonneg) simp
  from assms(2) p have z: "z = rnd y" by (auto simp: fl_def split: if_splits)
  have lo: "2 powi (expo y) \<le> y" using assms(1) by (rule above_binade)
  have "0 < (2::real) powi (expo y)" by simp
  moreover have "2 powi (expo y) \<le> rnd y" using lo by (rule rnd_lower)
  ultimately show "0 < z" using z by linarith
  have "real_of_int (rhe (y / ulp y)) \<le> y / ulp y + 1 / 2" by (rule rhe_bounds(1))
  then have "real_of_int (rhe (y / ulp y)) * ulp y \<le> (y / ulp y + 1 / 2) * ulp y"
    using ulp_pos [of y] by (intro mult_right_mono) simp_all
  moreover have "(y / ulp y + 1 / 2) * ulp y = y + ulp y / 2"
    using ulp_pos [of y] by (simp add: field_simps)
  ultimately have r: "rnd y \<le> y + ulp y / 2" by (simp add: rnd_def)
  have "(2::real) powi (expo y + (- 53)) = 2 powi (expo y) * 2 powi (- 53)"
    by (rule power_int_add) simp
  moreover have "(2::real) powi (expo y - 52 + (- 1)) = 2 powi (expo y - 52) * 2 powi (- 1)"
    by (rule power_int_add) simp
  moreover have "expo y - 52 + (- 1) = expo y + (- 53)" by simp
  ultimately have "ulp y * 2 powi (- 1) = 2 powi (expo y) * 2 powi (- 53)"
    unfolding ulp_def by (simp only:)
  moreover have "(2::real) powi (- 1) = 1 / 2" by (simp add: power_int_minus)
  ultimately have h: "ulp y / 2 = 2 powi (expo y) * 2 powi (- 53)" by simp
  have "2 powi (expo y) * 2 powi (- 53) \<le> y * 2 powi (- 53)"
    using lo by (intro mult_right_mono) simp_all
  then show "z \<le> y + y * 2 powi (- 53)" using r h z by linarith
qed

text \<open>Evaluation in a known binade; overflow.\<close>

lemma fl_eval:
  assumes "2 powi e \<le> x" and "x < 2 powi (e + 1)" and "- 1022 \<le> e" and "e \<le> 1022"
  shows "fl x = Fin (of_int (rhe (x / 2 powi (e - 52))) * 2 powi (e - 52))"
proof -
  have p: "0 < x" using assms(1) zero_less_power_int [of "2::real" e] by linarith
  have "\<lfloor>log 2 x\<rfloor> = e" using assms(1,2) by (rule floor_log2_eq)
  then have e: "expo x = e" using p assms(3) by (simp add: expo_def)
  have "rnd x \<le> 2 powi (expo x + 1)" using p by (rule rnd_upper)
  moreover have "(2::real) powi (e + 1) < 2 powi 1024"
    using assms(4) by (intro power_int_strict_increasing) auto
  moreover have "0 \<le> rnd x" using p by (intro rnd_nonneg) simp
  ultimately have "\<not> 2 powi 1024 \<le> \<bar>rnd x\<bar>" using e by simp
  then have "fl x = Fin (rnd x)" using p by (simp add: fl_def)
  then show ?thesis by (simp add: rnd_def ulp_def e)
qed

lemma fl_overflow:
  assumes "2 powi 1024 \<le> x"
  shows "fl x = PInf"
proof -
  have p: "0 < x" using assms zero_less_power_int [of "2::real" 1024] by linarith
  have "(2::real) powi (- 1022) \<le> 2 powi 1024" by (intro power_int_increasing) auto
  then have n: "2 powi (- 1022) \<le> x" using assms by linarith
  have "2 powr (real_of_int 1024) \<le> x" using assms by (simp only: powr2)
  then have "real_of_int 1024 \<le> log 2 x"
    using p by (simp only: le_log_iff [of 2 x] one_less_numeral_iff semiring_norm)
  then have "1024 \<le> \<lfloor>log 2 x\<rfloor>" by (simp only: le_floor_iff)
  then have "1024 \<le> expo x" using expo_normal [OF n] by simp
  then have "(2::real) powi 1024 \<le> 2 powi (expo x)" by (intro power_int_increasing) auto
  moreover have "2 powi (expo x) \<le> rnd x" using above_binade [OF n] by (rule rnd_lower)
  moreover have "0 \<le> rnd x" using p by (intro rnd_nonneg) simp
  ultimately have "2 powi 1024 \<le> \<bar>rnd x\<bar>" by linarith
  then show ?thesis using p by (simp add: fl_def)
qed

section \<open>Properties of the chart helpers\<close>

text \<open>
  C7. For every value \<open>v\<close>, every \<open>a\<close> and all output bounds \<open>o1\<close>, \<open>o2\<close>, the scale of \<open>v\<close>
  from the degenerate input range \<open>[a, a]\<close> is the midpoint \<open>(o1 + o2) / 2\<close> of the
  output range.
\<close>

theorem scale_degenerate: "scale v a a o1 o2 = (o1 + o2) / 2"
  by (simp add: scale_def)

text \<open>
  C9. On the empty list \<open>getQuantiles\<close> returns the summary whose five fields are all the
  number 0: it reads no array element.
\<close>

theorem getQuantiles_empty:
  "getQuantiles [] = \<lparr>q_min = Some 0, q1 = Some 0, median = Some 0, q3 = Some 0, q_max = Some 0\<rparr>"
  by (simp add: getQuantiles_def)

section \<open>The heatmap matrix\<close>

text \<open>The matrix is stored row by row: the cell of columns \<open>i\<close> and \<open>j\<close> is at \<open>i * size + j\<close>.\<close>

lemma nth_concat_rows:
  "\<forall>r \<in> set xss. length r = n \<Longrightarrow> i < length xss \<Longrightarrow> j < n \<Longrightarrow>
     concat xss ! (i * n + j) = xss ! i ! j"
proof (induction xss arbitrary: i)
  case Nil
  then show ?case by simp
next
  case (Cons r xss)
  show ?case
  proof (cases i)
    case 0
    with Cons.prems show ?thesis by (simp add: nth_append)
  next
    case (Suc k)
    with Cons.prems have "concat xss ! (k * n + j) = xss ! k ! j"
      by (intro Cons.IH) auto
    moreover have "length r = n" using Cons.prems by simp
    ultimately show ?thesis using Suc by (simp add: nth_append)
  qed
qed

lemma heatmap_cell:
  assumes "heatmap_branch strToNum ty rows cols = Some (HeatmapChart m ls n)"
    and "i < n" and "j < n"
  shows "m ! (i * n + j) =
           (ls ! i, ls ! j,
            calculateCorrelation (getNums strToNum rows (ls ! i)) (getNums strToNum rows (ls ! j)))"
proof -
  from assms(1) have g: "ty = HEATMAP \<and> length (numCols cols) \<ge> 2"
    by (simp add: heatmap_branch_def split: if_splits)
  from assms(1) g have ls: "ls = take 6 (numCols cols)" and n: "n = length ls"
    and m: "m = concat (map (\<lambda>i. map (\<lambda>j.
              (ls ! i, ls ! j,
               calculateCorrelation (getNums strToNum rows (ls ! i)) (getNums strToNum rows (ls ! j))))
            [0..<length ls]) [0..<length ls])"
    by (auto simp: heatmap_branch_def Let_def)
  show ?thesis
    unfolding m using assms(2,3) n
    by (subst nth_concat_rows [where n = n]) auto
qed

lemma calc_mismatch:
  "length xs \<noteq> length ys \<or> xs = [] \<and> ys = [] \<Longrightarrow> calculateCorrelation xs ys = Fin 0"
  by (auto simp: calculateCorrelation_def)

text \<open>
  C8. \<open>calculateCorrelation\<close> returns 0 whenever its two lists differ in length or are both
  empty. So a heatmap cell of two columns that yield different numbers of parseable cells
  holds the correlation 0, whatever the values are.
\<close>

theorem calculateCorrelation_mismatch:
  "(length xs \<noteq> length ys \<or> xs = [] \<and> ys = [] \<longrightarrow> calculateCorrelation xs ys = Fin 0) \<and>
   (heatmap_branch strToNum ty rows cols = Some (HeatmapChart m ls n) \<and> i < n \<and> j < n \<and>
      length (getNums strToNum rows (ls ! i)) \<noteq> length (getNums strToNum rows (ls ! j))
    \<longrightarrow> m ! (i * n + j) = (ls ! i, ls ! j, Fin 0))"
  using heatmap_cell [of strToNum ty rows cols m ls n i j]
  by (auto simp: calc_mismatch)

lemma sqrt16: "sqrt 16 = 4"
  by (rule real_sqrt_unique) simp_all

theorem calculateCorrelation_mismatch_witness:
  "length [Fin 1, Fin 2] \<noteq> length [Fin 1] \<and> calculateCorrelation [Fin 1, Fin 2] [Fin 1] = Fin 0 \<and>
   heatmap_branch (\<lambda>s. NaN) HEATMAP
       [[''a'' \<mapsto> JNum (Fin 1), ''b'' \<mapsto> JNum (Fin 2)], [''a'' \<mapsto> JNum (Fin 3), ''b'' \<mapsto> JStr ''x'']]
       [\<lparr>col_name = ''a'', col_type = numeric, uniqueCount = 2, sample = []\<rparr>,
        \<lparr>col_name = ''b'', col_type = numeric, uniqueCount = 2, sample = []\<rparr>]
     = Some (HeatmapChart
         [(''a'', ''a'', Fin 1), (''a'', ''b'', Fin 0), (''b'', ''a'', Fin 0), (''b'', ''b'', Fin 0)] [''a'', ''b''] 2) \<and>
   length (getNums (\<lambda>s. NaN)
       [[''a'' \<mapsto> JNum (Fin 1), ''b'' \<mapsto> JNum (Fin 2)], [''a'' \<mapsto> JNum (Fin 3), ''b'' \<mapsto> JStr ''x'']] ''a'')
     \<noteq> length (getNums (\<lambda>s. NaN)
       [[''a'' \<mapsto> JNum (Fin 1), ''b'' \<mapsto> JNum (Fin 2)], [''a'' \<mapsto> JNum (Fin 3), ''b'' \<mapsto> JStr ''x'']] ''b'') \<and>
   [(''a'', ''a'', Fin 1), (''a'', ''b'', Fin 0), (''b'', ''a'', Fin 0), (''b'', ''b'', Fin 0)] ! (0 * 2 + 1)
     = (''a'', ''b'', Fin 0)"
proof -
  have h: "heatmap_branch (\<lambda>s. NaN) HEATMAP
       [[''a'' \<mapsto> JNum (Fin 1), ''b'' \<mapsto> JNum (Fin 2)], [''a'' \<mapsto> JNum (Fin 3), ''b'' \<mapsto> JStr ''x'']]
       [\<lparr>col_name = ''a'', col_type = numeric, uniqueCount = 2, sample = []\<rparr>,
        \<lparr>col_name = ''b'', col_type = numeric, uniqueCount = 2, sample = []\<rparr>]
     = Some (HeatmapChart
         [(''a'', ''a'', Fin 1), (''a'', ''b'', Fin 0), (''b'', ''a'', Fin 0), (''b'', ''b'', Fin 0)] [''a'', ''b''] 2)"
    by (simp add: heatmap_branch_def numCols_def getNums_def Number_def trim_def isWhite_def
          cell_def inherited_def calculateCorrelation_def fsub_def fl_numeral sqrt16)
  have l: "length (getNums (\<lambda>s. NaN)
       [[''a'' \<mapsto> JNum (Fin 1), ''b'' \<mapsto> JNum (Fin 2)], [''a'' \<mapsto> JNum (Fin 3), ''b'' \<mapsto> JStr ''x'']] ''a'')
     \<noteq> length (getNums (\<lambda>s. NaN)
       [[''a'' \<mapsto> JNum (Fin 1), ''b'' \<mapsto> JNum (Fin 2)], [''a'' \<mapsto> JNum (Fin 3), ''b'' \<mapsto> JStr ''x'']] ''b'')"
    by (simp add: getNums_def Number_def trim_def isWhite_def cell_def inherited_def)
  from calculateCorrelation_mismatch [of "[Fin 1, Fin 2]" "[Fin 1]" "\<lambda>s. NaN" HEATMAP
       "[[''a'' \<mapsto> JNum (Fin 1), ''b'' \<mapsto> JNum (Fin 2)], [''a'' \<mapsto> JNum (Fin 3), ''b'' \<mapsto> JStr ''x'']]"
       "[\<lparr>col_name = ''a'', col_type = numeric, uniqueCount = 2, sample = []\<rparr>,
        \<lparr>col_name = ''b'', col_type = numeric, uniqueCount = 2, sample = []\<rparr>]"
       "[(''a'', ''a'', Fin 1), (''a'', ''b'', Fin 0), (''b'', ''a'', Fin 0), (''b'', ''b'', Fin 0)]"
       "[''a'', ''b'']" 2 0 1] h l
  show ?thesis by simp
qed

section \<open>The five-number summary\<close>

text \<open>The three quantile indices \<open>floor(n * q)\<close> are the integer quotients.\<close>

lemma floor_quarter: "\<lfloor>real n * 0.25\<rfloor> = int (n div 4)"
  using floor_divide_of_nat_eq [of n 4, where ?'a = real] by simp

lemma floor_half: "\<lfloor>real n * 0.5\<rfloor> = int (n div 2)"
  using floor_divide_of_nat_eq [of n 2, where ?'a = real] by simp

lemma floor_three_quarters: "\<lfloor>real n * 0.75\<rfloor> = int (3 * n div 4)"
  using floor_divide_of_nat_eq [of "3 * n" 4, where ?'a = real] by (simp add: mult.commute)

lemma elem_at_nat: "k < length xs \<Longrightarrow> elem_at xs (int k) = Some (xs ! k)"
  by (simp add: elem_at_def)

text \<open>
  C6. For every non-empty list of numbers the summary reads, without interpolation, the
  sorted list at the indices \<open>0\<close>, \<open>floor(n * 0.25)\<close>, \<open>floor(n * 0.5)\<close>,
  \<open>floor(n * 0.75)\<close> and \<open>n - 1\<close>, all inside the list, and the five values are in
  order: \<open>min \<le> q1 \<le> median \<le> q3 \<le> max\<close>. For \<open>[1, 2, 3, 4, 100]\<close> it gives
  \<open>q1 = 2\<close>, \<open>median = 3\<close>, \<open>q3 = 4\<close>.
\<close>

theorem getQuantiles_ordered:
  "(vals \<noteq> [] \<longrightarrow>
      getQuantiles vals =
        \<lparr>q_min = Some (sort vals ! 0),
         q1 = Some (sort vals ! (length vals div 4)),
         median = Some (sort vals ! (length vals div 2)),
         q3 = Some (sort vals ! (3 * length vals div 4)),
         q_max = Some (sort vals ! (length vals - 1))\<rparr> \<and>
      sort vals ! 0 \<le> sort vals ! (length vals div 4) \<and>
      sort vals ! (length vals div 4) \<le> sort vals ! (length vals div 2) \<and>
      sort vals ! (length vals div 2) \<le> sort vals ! (3 * length vals div 4) \<and>
      sort vals ! (3 * length vals div 4) \<le> sort vals ! (length vals - 1)) \<and>
   getQuantiles [1, 2, 3, 4, 100] =
     \<lparr>q_min = Some 1, q1 = Some 2, median = Some 3, q3 = Some 4, q_max = Some 100\<rparr>"
proof (intro conjI impI)
  assume ne: "vals \<noteq> []"
  let ?n = "length vals"
  let ?s = "sort vals"
  have n: "0 < ?n" using ne by simp
  have len: "length ?s = ?n" by simp
  have i1: "?n div 4 < ?n" and i2: "?n div 2 < ?n" and i3: "3 * ?n div 4 < ?n"
    using n by linarith+
  have e0: "elem_at ?s 0 = Some (?s ! 0)" using n by (simp add: elem_at_def)
  have e4: "elem_at ?s (int ?n - 1) = Some (?s ! (?n - 1))"
    using n by (simp add: elem_at_def nat_diff_distrib')
  have e1: "elem_at ?s \<lfloor>real (length ?s) * 0.25\<rfloor> = Some (?s ! (?n div 4))"
    unfolding length_sort floor_quarter using i1 by (simp add: elem_at_nat)
  have e2: "elem_at ?s \<lfloor>real (length ?s) * 0.5\<rfloor> = Some (?s ! (?n div 2))"
    unfolding length_sort floor_half using i2 by (simp add: elem_at_nat)
  have e3: "elem_at ?s \<lfloor>real (length ?s) * 0.75\<rfloor> = Some (?s ! (3 * ?n div 4))"
    unfolding length_sort floor_three_quarters using i3 by (simp add: elem_at_nat)
  show "getQuantiles vals =
        \<lparr>q_min = Some (?s ! 0), q1 = Some (?s ! (?n div 4)), median = Some (?s ! (?n div 2)),
         q3 = Some (?s ! (3 * ?n div 4)), q_max = Some (?s ! (?n - 1))\<rparr>"
    using ne e0 e1 e2 e3 e4 by (simp add: getQuantiles_def Let_def)
  have srt: "sorted ?s" by simp
  show "?s ! 0 \<le> ?s ! (?n div 4)"
    using srt i1 by (intro sorted_nth_mono) auto
  show "?s ! (?n div 4) \<le> ?s ! (?n div 2)"
    using srt i2 by (intro sorted_nth_mono) auto
  show "?s ! (?n div 2) \<le> ?s ! (3 * ?n div 4)"
    using srt i3 by (intro sorted_nth_mono) auto
  show "?s ! (3 * ?n div 4) \<le> ?s ! (?n - 1)"
    using srt i3 n by (intro sorted_nth_mono) auto
next
  show "getQuantiles [1, 2, 3, 4, 100] =
     \<lparr>q_min = Some 1, q1 = Some 2, median = Some 3, q3 = Some 4, q_max = Some 100\<rparr>"
    by (simp add: getQuantiles_def elem_at_def)
qed

theorem getQuantiles_ordered_witness:
  "[7, 3, 5 :: real] \<noteq> [] \<and>
   getQuantiles [7, 3, 5] =
     \<lparr>q_min = Some 3, q1 = Some 3, median = Some 5, q3 = Some 7, q_max = Some 7\<rparr> \<and>
   (3 :: real) \<le> 5 \<and> (5 :: real) \<le> 7"
  using getQuantiles_ordered [of "[7, 3, 5]"] by simp

section \<open>Binning\<close>

lemma fold_fmin2_Fin: "fold fmin2 (map Fin rs) (Fin a) = Fin (fold min rs a)"
  by (induction rs arbitrary: a) (simp_all add: min.commute)

lemma fold_fmax2_Fin: "fold fmax2 (map Fin rs) (Fin a) = Fin (fold max rs a)"
  by (induction rs arbitrary: a) (simp_all add: max.commute)

lemma Math_min_Fin: "rs \<noteq> [] \<Longrightarrow> Math_min (map Fin rs) = Fin (Min (set rs))"
proof (cases rs)
  case Nil
  moreover assume "rs \<noteq> []"
  ultimately show ?thesis by simp
next
  case (Cons a list)
  have "Min (set (a # list)) = fold min list a" by (rule Min.set_eq_fold)
  then show ?thesis unfolding Cons by (simp add: Math_min_def fold_fmin2_Fin del: set_simps)
qed

lemma Math_max_Fin: "rs \<noteq> [] \<Longrightarrow> Math_max (map Fin rs) = Fin (Max (set rs))"
proof (cases rs)
  case Nil
  moreover assume "rs \<noteq> []"
  ultimately show ?thesis by simp
next
  case (Cons a list)
  have "Max (set (a # list)) = fold max list a" by (rule Max.set_eq_fold)
  then show ?thesis unfolding Cons by (simp add: Math_max_def fold_fmax2_Fin del: set_simps)
qed

lemma fsub_Fin: "fsub (Fin a) (Fin b) = fl (a - b)"
  by (simp add: fsub_def)

text \<open>The difference of a value and the minimum, when the range is finite.\<close>

lemma offset_finite:
  assumes "v \<in> set rs" and "fsub (Fin (Max (set rs))) (Fin (Min (set rs))) = Fin d"
  shows "\<exists>a. fsub (Fin v) (Fin (Min (set rs))) = Fin a \<and> 0 \<le> a \<and> a \<le> d"
proof -
  have "Min (set rs) \<le> v" and "v \<le> Max (set rs)" using assms(1) by simp_all
  then have "0 \<le> v - Min (set rs)" and "v - Min (set rs) \<le> Max (set rs) - Min (set rs)"
    by linarith+
  then show ?thesis using assms(2) unfolding fsub_Fin by (rule fl_mono_fin)
qed

lemma range_nonneg:
  assumes "v \<in> set rs" and "fsub (Fin (Max (set rs))) (Fin (Min (set rs))) = Fin d"
  shows "0 \<le> d"
  using offset_finite [OF assms] by auto

lemma clamp_exact: "0 < n \<Longrightarrow> n < 2 ^ 32 \<Longrightarrow> fsub (Fin (real n)) (Fin 1) = Fin (real n - 1)"
proof -
  assume p: "0 < n" and b: "n < 2 ^ 32"
  have "\<bar>int n - 1\<bar> < 2 ^ 53" using b by simp
  then have "fl (of_int (int n - 1)) = Fin (of_int (int n - 1))" by (rule fl_of_int)
  then show ?thesis by (simp add: fsub_Fin)
qed

lemma fl_count: "n < 2 ^ 32 \<Longrightarrow> fl (real n) = Fin (real n)"
  by (rule fl_of_nat) simp

text \<open>An index that is a whole number from 0 up to the clamp is an index of the array.\<close>

lemma clamped_index:
  assumes "0 \<le> k" and "0 < n"
  shows "\<exists>i<n. Fin (min (real_of_int k) (real n - 1)) = Fin (real i)"
proof -
  define z where "z = min k (int n - 1)"
  have m: "0 \<le> z" using assms by (simp add: z_def)
  have "real (nat z) = real_of_int z" using m by simp
  also have "\<dots> = min (real_of_int k) (real n - 1)" by (simp add: z_def min_def)
  finally have "Fin (min (real_of_int k) (real n - 1)) = Fin (real (nat z))" by simp
  moreover have "nat z < n" using m assms(2) by (simp add: z_def nat_less_iff)
  ultimately show ?thesis by blast
qed

lemma density_idx_bounds:
  assumes v: "v \<in> set rs" and n: "0 < binCount" "binCount < 2 ^ 32"
    and d: "fsub (Fin (Max (set rs))) (Fin (Min (set rs))) = Fin d"
  shows "\<exists>i<binCount. density_idx (map Fin rs) binCount (Fin v) = Fin (real i)"
proof -
  have ne: "rs \<noteq> []" using v by auto
  obtain a where a: "fsub (Fin v) (Fin (Min (set rs))) = Fin a" "0 \<le> a" "a \<le> d"
    using offset_finite [OF v d] by auto
  define r where "r = (if d = 0 then 1 else d)"
  have r: "density_range (map Fin rs) = Fin r"
    by (simp add: density_range_def Math_min_Fin [OF ne] Math_max_Fin [OF ne] d or_num_def r_def)
  have rp: "0 < r" using range_nonneg [OF v d] by (simp add: r_def)
  have ar: "a / r \<le> 1" using a rp by (auto simp: r_def)
  have "0 \<le> a / r" using a rp by simp
  then obtain b where b: "fl (a / r) = Fin b" "0 \<le> b" "b \<le> 1"
    using fl_mono_fin [of "a / r" 1 1] ar by auto
  have "0 \<le> b * real binCount" and "b * real binCount \<le> real binCount"
    using b by (simp_all add: mult_left_le_one_le)
  then obtain c where c: "fl (b * real binCount) = Fin c" "0 \<le> c" "c \<le> real binCount"
    using fl_mono_fin [of "b * real binCount" "real binCount" "real binCount"] fl_count [OF n(2)]
    by auto
  have idx: "density_idx (map Fin rs) binCount (Fin v)
               = Fin (min (real_of_int \<lfloor>c\<rfloor>) (real binCount - 1))"
    using rp by (simp add: density_idx_def Math_min_Fin [OF ne] a r b c clamp_exact [OF n])
  have "0 \<le> \<lfloor>c\<rfloor>" using c(2) by simp
  then show ?thesis unfolding idx using n(1) by (rule clamped_index)
qed

lemma rhe_le_double: "0 \<le> t \<Longrightarrow> real_of_int (rhe t) \<le> 2 * t"
proof (cases "t < 1 / 2")
  case True
  moreover assume "0 \<le> t"
  ultimately have "\<lfloor>t\<rfloor> = 0" by (simp add: floor_eq_iff)
  then have "rhe t = 0" using True by (simp add: rhe_def)
  then show ?thesis using \<open>0 \<le> t\<close> by simp
next
  case False
  then show ?thesis using rhe_bounds(1) [of t] by linarith
qed

lemma rnd_le_double: "0 \<le> y \<Longrightarrow> rnd y \<le> 2 * y"
proof -
  assume "0 \<le> y"
  then have "0 \<le> y / ulp y" using ulp_pos [of y] by simp
  then have "real_of_int (rhe (y / ulp y)) \<le> 2 * (y / ulp y)" by (rule rhe_le_double)
  then have "real_of_int (rhe (y / ulp y)) * ulp y \<le> 2 * (y / ulp y) * ulp y"
    using ulp_pos [of y] by (intro mult_right_mono) simp_all
  then show ?thesis using ulp_pos [of y] by (simp add: rnd_def)
qed

lemma fl_le_double: "0 \<le> y \<Longrightarrow> fl y = Fin d \<Longrightarrow> d \<le> 2 * y"
  using rnd_le_double [of y] by (auto simp: fl_def split: if_splits)

text \<open>The width of a histogram bin is positive and finite when the range is finite.\<close>

lemma bin_width_finite:
  assumes v: "v \<in> set rs" and d: "fsub (Fin (Max (set rs))) (Fin (Min (set rs))) = Fin d"
  shows "\<exists>z. fl (d / 15) = Fin z \<and> 0 \<le> z"
proof -
  have d0: "0 \<le> d" using range_nonneg [OF v d] .
  let ?y = "Max (set rs) - Min (set rs)"
  have "Min (set rs) \<le> v" and "v \<le> Max (set rs)" using v by simp_all
  then have y0: "0 \<le> ?y" by linarith
  have fy: "fl ?y = Fin d" using d by (simp add: fsub_Fin)
  have "d \<le> 2 * ?y" using y0 fy by (rule fl_le_double)
  moreover have "\<And>y::real. d \<le> 2 * y \<Longrightarrow> 0 \<le> y \<Longrightarrow> d / 15 \<le> y" by linarith
  ultimately have "d / 15 \<le> ?y" using y0 by blast
  moreover have "0 \<le> d / 15" using d0 by simp
  ultimately show ?thesis
    using fl_mono_fin [of "d / 15" ?y d] fy by auto
qed

lemma hist_binSize_finite:
  assumes v: "v \<in> set rs" and d: "fsub (Fin (Max (set rs))) (Fin (Min (set rs))) = Fin d"
  shows "\<exists>s. hist_binSize (map Fin rs) = Fin s \<and> 0 < s"
proof -
  have ne: "rs \<noteq> []" using v by auto
  obtain z where z: "fl (d / 15) = Fin z" "0 \<le> z"
    using bin_width_finite [OF v d] by auto
  have "hist_binSize (map Fin rs) = Fin (if z = 0 then 1 else z)"
    by (simp add: hist_binSize_def hist_binCount_def Math_min_Fin [OF ne] Math_max_Fin [OF ne] d z
          or_num_def)
  moreover have "0 < (if z = 0 then 1 else z)" using z(2) by simp
  ultimately show ?thesis by blast
qed

lemma hist_idx_bounds:
  assumes v: "v \<in> set rs" and d: "fsub (Fin (Max (set rs))) (Fin (Min (set rs))) = Fin d"
  shows "\<exists>j<hist_binCount. hist_idx (map Fin rs) (Fin v) = Fin (real j)"
proof -
  have ne: "rs \<noteq> []" using v by auto
  obtain a where a: "fsub (Fin v) (Fin (Min (set rs))) = Fin a" "0 \<le> a"
    using offset_finite [OF v d] by auto
  obtain s where s: "hist_binSize (map Fin rs) = Fin s" "0 < s"
    using hist_binSize_finite [OF v d] by auto
  have c14: "fsub (Fin (real hist_binCount)) (Fin 1) = Fin (real hist_binCount - 1)"
    by (rule clamp_exact) (simp_all add: hist_binCount_def)
  have dv: "fdiv (Fin a) (Fin s) = fl (a / s)" using s(2) by simp
  have q0: "0 \<le> a / s" using a s by simp
  consider "fl (a / s) = PInf" | q where "fl (a / s) = Fin q" "0 \<le> q"
    using fl_nonneg_cases [OF q0] by auto
  then show ?thesis
  proof cases
    case 1
    then have "hist_idx (map Fin rs) (Fin v) = Fin (real hist_binCount - 1)"
      by (simp only: hist_idx_def Math_min_Fin [OF ne] a s c14 dv ffloor.simps fmin2.simps)
    then have "hist_idx (map Fin rs) (Fin v) = Fin (real (14 :: nat))"
      by (simp add: hist_binCount_def)
    then show ?thesis by (intro exI [of _ 14]) (simp add: hist_binCount_def)
  next
    case 2
    then have idx: "hist_idx (map Fin rs) (Fin v)
                 = Fin (min (real_of_int \<lfloor>q\<rfloor>) (real hist_binCount - 1))"
      by (simp only: hist_idx_def Math_min_Fin [OF ne] a s c14 dv ffloor.simps fmin2.simps)
    have "0 \<le> \<lfloor>q\<rfloor>" using 2(2) by simp
    then show ?thesis unfolding idx by (rule clamped_index) (simp add: hist_binCount_def)
  qed
qed

lemma density_idx_max:
  assumes ne: "rs \<noteq> []" and n: "0 < binCount" "binCount < 2 ^ 32"
    and d: "fsub (Fin (Max (set rs))) (Fin (Min (set rs))) = Fin d" and p: "0 < d"
  shows "density_idx (map Fin rs) binCount (Fin (Max (set rs))) = Fin (real binCount - 1)"
proof -
  have r: "density_range (map Fin rs) = Fin d"
    using p by (simp add: density_range_def Math_min_Fin [OF ne] Math_max_Fin [OF ne] d or_num_def)
  have q: "fdiv (Fin d) (Fin d) = Fin 1" using p by simp
  have c: "fmul (Fin 1) (Fin (real binCount)) = Fin (real binCount)"
    using fl_count [OF n(2)] by simp
  have f: "ffloor (Fin (real binCount)) = Fin (real binCount)" by simp
  show ?thesis
    unfolding density_idx_def Math_min_Fin [OF ne] d r q c f clamp_exact [OF n]
    by simp
qed

lemma hist_idx_max:
  assumes ne: "rs \<noteq> []"
    and d: "fsub (Fin (Max (set rs))) (Fin (Min (set rs))) = Fin d"
    and big: "15 * 2 powi (- 1022) \<le> d"
  shows "hist_idx (map Fin rs) (Fin (Max (set rs))) = Fin 14"
proof -
  have v: "Max (set rs) \<in> set rs" using ne by simp
  have dp: "0 < d" using big zero_less_power_int [of "2::real" "- 1022"] by linarith
  obtain z where z: "fl (d / 15) = Fin z"
    using bin_width_finite [OF v d] by auto
  have n15: "2 powi (- 1022) \<le> d / 15" using big by simp
  have zu: "z \<le> d / 15 + d / 15 * 2 powi (- 53)" and zp: "0 < z"
    using fl_normal [OF n15 z] by simp_all
  have s: "hist_binSize (map Fin rs) = Fin z"
    using zp by (simp add: hist_binSize_def hist_binCount_def Math_min_Fin [OF ne]
        Math_max_Fin [OF ne] d z or_num_def)
  have eps: "(2::real) powi (- 53) \<le> 1 / 14" by (simp add: power_int_minus)
  have "d / 15 * 2 powi (- 53) \<le> d / 15 * (1 / 14)"
    using eps dp by (intro mult_left_mono) simp_all
  then have "14 * z \<le> d" using zu by linarith
  then have ge: "14 \<le> d / z" using zp by (simp add: pos_le_divide_eq)
  have f14: "fl 14 = Fin 14" by (simp add: fl_numeral)
  have c14: "fsub (Fin (real hist_binCount)) (Fin 1) = Fin 14"
    using clamp_exact [of hist_binCount] by (simp add: hist_binCount_def)
  have dv: "fdiv (Fin d) (Fin z) = fl (d / z)" using zp by simp
  consider "fl (d / z) = PInf" | b where "fl (d / z) = Fin b" "14 \<le> b"
    using fl_mono_above [of 14 14 "d / z"] f14 ge by auto
  then show ?thesis
  proof cases
    case 1
    show ?thesis
      unfolding hist_idx_def Math_min_Fin [OF ne] d s dv 1 c14 by simp
  next
    case 2
    have "14 \<le> \<lfloor>b\<rfloor>" using 2(2) by (simp add: le_floor_iff)
    then have "(14::real) \<le> real_of_int \<lfloor>b\<rfloor>" by simp
    then have m: "min (real_of_int \<lfloor>b\<rfloor>) 14 = 14" by (simp only: min_absorb2)
    show ?thesis
      unfolding hist_idx_def Math_min_Fin [OF ne] d s dv 2(1) c14 ffloor.simps fmin2.simps m ..
  qed
qed

lemma degenerate_value:
  assumes "v \<in> set rs" and "Min (set rs) = Max (set rs)"
  shows "v = Min (set rs)"
proof -
  have "Min (set rs) \<le> v" and "v \<le> Max (set rs)" using assms(1) by simp_all
  with assms(2) show ?thesis by auto
qed

lemma density_idx_degenerate:
  assumes v: "v \<in> set rs" and e: "Min (set rs) = Max (set rs)"
    and n: "0 < binCount" "binCount < 2 ^ 32"
  shows "density_idx (map Fin rs) binCount (Fin v) = Fin 0"
proof -
  have ne: "rs \<noteq> []" using v by auto
  have vm: "v = Min (set rs)" using v e by (rule degenerate_value)
  have r: "density_range (map Fin rs) = Fin 1"
    by (simp add: density_range_def Math_min_Fin [OF ne] Math_max_Fin [OF ne] e fsub_Fin or_num_def)
  have "0 \<le> real binCount - 1" using n(1) by simp
  then show ?thesis
    unfolding density_idx_def Math_min_Fin [OF ne] r clamp_exact [OF n] vm [symmetric]
    by (simp add: fsub_Fin)
qed

lemma hist_binSize_degenerate:
  assumes "rs \<noteq> []" and "Min (set rs) = Max (set rs)"
  shows "hist_binSize (map Fin rs) = Fin 1"
  by (simp add: hist_binSize_def hist_binCount_def Math_min_Fin [OF assms(1)]
        Math_max_Fin [OF assms(1)] assms(2) fsub_Fin or_num_def)

lemma hist_idx_degenerate:
  assumes v: "v \<in> set rs" and e: "Min (set rs) = Max (set rs)"
  shows "hist_idx (map Fin rs) (Fin v) = Fin 0"
proof -
  have ne: "rs \<noteq> []" using v by auto
  have vm: "v = Min (set rs)" using v e by (rule degenerate_value)
  have s: "hist_binSize (map Fin rs) = Fin 1"
    by (simp add: hist_binSize_def hist_binCount_def Math_min_Fin [OF ne] Math_max_Fin [OF ne] e
          fsub_Fin or_num_def)
  have c14: "fsub (Fin (real hist_binCount)) (Fin 1) = Fin 14"
    using clamp_exact [of hist_binCount] by (simp add: hist_binCount_def)
  show ?thesis
    unfolding hist_idx_def Math_min_Fin [OF ne] s c14 vm [symmetric]
    by (simp add: fsub_Fin)
qed

text \<open>The array keeps its counters, and a value whose index is in bounds is counted once.\<close>

lemma length_bump: "length (bump bins idx) = length bins"
  by (simp add: bump_def split: num.splits)

lemma length_fold_bump: "length (fold (\<lambda>v b. bump b (f v)) vs bins) = length bins"
  by (induction vs arbitrary: bins) (simp_all add: length_bump)

lemma length_hist_bins: "length (hist_bins vals) = hist_binCount"
  by (simp add: hist_bins_def length_fold_bump)

lemma length_density_bins: "length (density_bins vals binCount) = binCount"
  by (simp add: density_bins_def length_fold_bump)

lemma bump_index: "i < length bins \<Longrightarrow> bump bins (Fin (real i)) = bins[i := bins ! i + 1]"
  by (simp add: bump_def)

lemma sum_list_bump: "i < length bins \<Longrightarrow> sum_list (bump bins (Fin (real i))) = sum_list bins + 1"
  by (simp add: bump_index sum_list_update)

lemma sum_list_fold_bump:
  "\<forall>v \<in> set vs. \<exists>i<length bins. f v = Fin (real i) \<Longrightarrow>
     sum_list (fold (\<lambda>v b. bump b (f v)) vs bins) = sum_list bins + length vs"
proof (induction vs arbitrary: bins)
  case Nil
  then show ?case by simp
next
  case (Cons a vs)
  obtain i where i: "i < length bins" "f a = Fin (real i)" using Cons.prems by auto
  have "sum_list (fold (\<lambda>v b. bump b (f v)) vs (bump bins (f a)))
          = sum_list (bump bins (f a)) + length vs"
    using Cons.prems by (intro Cons.IH) (simp add: length_bump)
  then show ?case using i by (simp add: sum_list_bump)
qed

text \<open>
  For finite values with a finite range the counters of the histogram sum to the number
  of values.
\<close>

lemma sum_list_hist_bins:
  assumes "fsub (Fin (Max (set rs))) (Fin (Min (set rs))) = Fin d"
  shows "sum_list (hist_bins (map Fin rs)) = length rs"
proof -
  have "\<forall>x \<in> set (map Fin rs). \<exists>i<length (replicate hist_binCount (0::nat)).
          hist_idx (map Fin rs) x = Fin (real i)"
    using hist_idx_bounds [OF _ assms] by auto
  then show ?thesis
    unfolding hist_bins_def by (subst sum_list_fold_bump) simp_all
qed

text \<open>
  Where the range is not finite, or underflows, the program leaves these bounds: with the
  values \<open>-10^308\<close> and \<open>10^308\<close> the difference overflows and the index is \<open>NaN\<close>; so
  it is with an infinite value; and with the values 0 and \<open>2^-1074\<close> the bin width
  underflows to 0, falls back to 1, and the maximum is counted in bin 0.
\<close>

lemma hist_idx_overflow_gen:
  assumes "2 powi 1024 \<le> 2 * X"
  shows "hist_idx [Fin (- X), Fin X] (Fin X) = NaN"
proof -
  have p: "0 < X" using assms zero_less_power_int [of "2::real" 1024] by linarith
  have o: "fl (2 * X) = PInf" using assms by (rule fl_overflow)
  have mn: "Math_min [Fin (- X), Fin X] = Fin (- X)" and mx: "Math_max [Fin (- X), Fin X] = Fin X"
    using p by (simp_all add: Math_min_def Math_max_def min_def max_def)
  have s: "hist_binSize [Fin (- X), Fin X] = PInf"
    by (simp add: hist_binSize_def mn mx fsub_def o or_num_def)
  show ?thesis by (simp add: hist_idx_def mn s fsub_def o)
qed

lemma hist_idx_overflow:
  "hist_idx [Fin (- (10 ^ 308)), Fin (10 ^ 308)] (Fin (10 ^ 308)) = NaN"
  by (rule hist_idx_overflow_gen) simp

lemma hist_idx_infinite_value: "hist_idx [Fin 1, Fin 2, PInf] PInf = NaN"
  by (simp add: hist_idx_def hist_binSize_def Math_min_def Math_max_def fsub_def or_num_def)

lemma fl_subnormal:
  assumes "0 < x" and "x < 2 powi (- 1022)"
  shows "fl x = Fin (of_int (rhe (x / 2 powi (- 1074))) * 2 powi (- 1074))"
proof -
  have "\<lfloor>log 2 x\<rfloor> < - 1022"
  proof (rule ccontr)
    assume "\<not> \<lfloor>log 2 x\<rfloor> < - 1022"
    then have "(2::real) powi (- 1022) \<le> 2 powi \<lfloor>log 2 x\<rfloor>"
      by (intro power_int_increasing) auto
    then show False using binade(1) [OF assms(1)] assms(2) by linarith
  qed
  then have e: "expo x = - 1022" using assms(1) by (simp add: expo_def)
  have "rnd x \<le> 2 powi (expo x + 1)" using assms(1) by (rule rnd_upper)
  moreover have "(2::real) powi (- 1022 + 1) < 2 powi 1024"
    by (intro power_int_strict_increasing) auto
  moreover have "0 \<le> rnd x" using assms(1) by (intro rnd_nonneg) simp
  ultimately have "\<not> 2 powi 1024 \<le> \<bar>rnd x\<bar>" using e by simp
  then have "fl x = Fin (rnd x)" using assms(1) by (simp add: fl_def)
  then show ?thesis by (simp add: rnd_def ulp_def e)
qed

lemma rhe_1 [simp]: "rhe 1 = 1"
  by (simp add: rhe_def)

lemma hist_idx_underflow_gen:
  assumes "0 < U" and "fl U = Fin U" and "fl (U / 15) = Fin 0" and "U < 1"
  shows "hist_idx [Fin 0, Fin U] (Fin U) = Fin 0"
proof -
  have c: "fl 14 = Fin 14" by (simp add: fl_numeral)
  have fu: "\<lfloor>U\<rfloor> = 0" using assms(1,4) by (simp add: floor_eq_iff)
  have mn: "Math_min [Fin 0, Fin U] = Fin 0" and mx: "Math_max [Fin 0, Fin U] = Fin U"
    using assms(1) by (simp_all add: Math_min_def Math_max_def min_def max_def)
  have s: "hist_binSize [Fin 0, Fin U] = Fin 1"
    by (simp add: hist_binSize_def hist_binCount_def mn mx fsub_def assms or_num_def)
  show ?thesis
    by (simp add: hist_idx_def hist_binCount_def mn s fsub_def assms(2,3) c fu)
qed

lemma hist_idx_underflow:
  "hist_idx [Fin 0, Fin (2 powi (- 1074))] (Fin (2 powi (- 1074))) = Fin 0"
proof (rule hist_idx_underflow_gen)
  show "0 < (2::real) powi (- 1074)" by simp
  show "fl (2 powi (- 1074)) = Fin (2 powi (- 1074))"
    using fl_subnormal [of "2 powi (- 1074)"] by (simp add: power_int_minus)
  show "fl (2 powi (- 1074) / 15) = Fin 0"
    using fl_subnormal [of "2 powi (- 1074) / 15"] by (simp add: power_int_minus rhe_def)
  show "(2::real) powi (- 1074) < 1" by (simp add: power_int_minus)
qed

text \<open>
  Inside these bounds the rounding decides the bin. With the doubles nearest to 0.1, 0.2
  and 0.4 the histogram index of the second is 4, where the unrounded quotient is 5; with
  the doubles nearest to 0.1, 1.3 and 3.1 the density index of the second is 11, where the
  unrounded product is 12.
\<close>

lemma hist_rounds:
  "fl (3602879701896397 / 9007199254740992 - 3602879701896397 / 36028797018963968) = Fin (1351079888211149 / 4503599627370496)"
  "fl (1351079888211149 / 4503599627370496 / 15) = Fin (1441151880758559 / 72057594037927936)"
  "fl (3602879701896397 / 18014398509481984 - 3602879701896397 / 36028797018963968) = Fin (3602879701896397 / 36028797018963968)"
  "fl (3602879701896397 / 36028797018963968 / (1441151880758559 / 72057594037927936)) = Fin (5629499534213119 / 1125899906842624)"
  using fl_eval [of "- 2" "3602879701896397 / 9007199254740992 - 3602879701896397 / 36028797018963968"]
    fl_eval [of "- 6" "1351079888211149 / 4503599627370496 / 15"]
    fl_eval [of "- 4" "3602879701896397 / 18014398509481984 - 3602879701896397 / 36028797018963968"]
    fl_eval [of "2" "3602879701896397 / 36028797018963968 / (1441151880758559 / 72057594037927936)"]
  by (simp_all add: rhe_def power_int_minus)

lemma hist_idx_rounding:
  "hist_idx [Fin (3602879701896397 / 36028797018963968), Fin (3602879701896397 / 18014398509481984),
             Fin (3602879701896397 / 9007199254740992)]
     (Fin (3602879701896397 / 18014398509481984)) = Fin 4"
  using hist_rounds
  by (simp add: hist_idx_def hist_binSize_def hist_binCount_def Math_min_def Math_max_def
        fsub_def or_num_def fl_numeral)

lemma density_rounds:
  "fl (6980579422424269 / 2251799813685248 - 3602879701896397 / 36028797018963968) = Fin 3"
  "fl (5854679515581645 / 4503599627370496 - 3602879701896397 / 36028797018963968) = Fin (5404319552844595 / 4503599627370496)"
  "fl (5404319552844595 / 4503599627370496 / 3) = Fin (7205759403792793 / 18014398509481984)"
  "fl (7205759403792793 / 18014398509481984 * 30) = Fin (6755399441055743 / 562949953421312)"
  using fl_eval [of "1" "6980579422424269 / 2251799813685248 - 3602879701896397 / 36028797018963968"]
    fl_eval [of "0" "5854679515581645 / 4503599627370496 - 3602879701896397 / 36028797018963968"]
    fl_eval [of "- 2" "5404319552844595 / 4503599627370496 / 3"]
    fl_eval [of "3" "7205759403792793 / 18014398509481984 * 30"]
  by (simp_all add: rhe_def power_int_minus)

lemma density_idx_rounding:
  "density_idx [Fin (3602879701896397 / 36028797018963968), Fin (5854679515581645 / 4503599627370496),
             Fin (6980579422424269 / 2251799813685248)] 30
     (Fin (5854679515581645 / 4503599627370496)) = Fin 11"
  using density_rounds
  by (simp add: density_idx_def density_range_def Math_min_def Math_max_def
        fsub_def or_num_def fl_numeral)

text \<open>
  C10 (as amended). In the histogram binning and in the density binning, for finite values
  whose difference \<open>max - min\<close>, as the program computes it, is finite, the index computed
  for a value of the data is clamped by \<open>min(floor(...), binCount - 1)\<close> and is a whole
  number from 0 to \<open>binCount - 1\<close>, on an array that keeps its \<open>binCount\<close> counters: every
  access is in bounds. The maximum is counted in the last bin of the density when that
  difference is positive, and in the last bin of the histogram when it is at least
  \<open>15 * 2^-1022\<close>; when all values are equal, every value is counted in bin 0.
\<close>

theorem bin_index_in_bounds:
  "v \<in> set rs \<Longrightarrow> 0 < binCount \<Longrightarrow> binCount < 2 ^ 32 \<Longrightarrow>
   fsub (Fin (Max (set rs))) (Fin (Min (set rs))) = Fin d \<Longrightarrow>
     (\<exists>i<binCount. density_idx (map Fin rs) binCount (Fin v) = Fin (real i)) \<and>
     length (density_bins (map Fin rs) binCount) = binCount \<and>
     (\<exists>j<hist_binCount. hist_idx (map Fin rs) (Fin v) = Fin (real j)) \<and>
     length (hist_bins (map Fin rs)) = hist_binCount \<and>
     (0 < d \<longrightarrow>
        density_idx (map Fin rs) binCount (Fin (Max (set rs))) = Fin (real binCount - 1)) \<and>
     (15 * 2 powi (- 1022) \<le> d \<longrightarrow>
        hist_idx (map Fin rs) (Fin (Max (set rs))) = Fin (real hist_binCount - 1)) \<and>
     (Min (set rs) = Max (set rs) \<longrightarrow>
        density_idx (map Fin rs) binCount (Fin v) = Fin 0 \<and> hist_idx (map Fin rs) (Fin v) = Fin 0)"
proof -
  assume v: "v \<in> set rs" and n: "0 < binCount" "binCount < 2 ^ 32"
    and d: "fsub (Fin (Max (set rs))) (Fin (Min (set rs))) = Fin d"
  have ne: "rs \<noteq> []" using v by auto
  have h: "15 * 2 powi (- 1022) \<le> d \<longrightarrow>
        hist_idx (map Fin rs) (Fin (Max (set rs))) = Fin (real hist_binCount - 1)"
    using hist_idx_max [OF ne d] by (simp add: hist_binCount_def)
  show ?thesis
    using density_idx_bounds [OF v n d] hist_idx_bounds [OF v d] density_idx_max [OF ne n d]
      density_idx_degenerate [OF v _ n] hist_idx_degenerate [OF v] h
    by (simp add: length_density_bins length_hist_bins)
qed

theorem bin_index_in_bounds_witness:
  "(100 :: real) \<in> set [1, 2, 3, 4, 100] \<and> (0 :: nat) < 30 \<and> (30 :: nat) < 2 ^ 32 \<and>
   fsub (Fin (Max (set [1, 2, 3, 4, 100]))) (Fin (Min (set [1, 2, 3, 4, 100]))) = Fin 99 \<and>
   (0 :: real) < 99 \<and> 15 * 2 powi (- 1022) \<le> (99 :: real) \<and>
   density_idx (map Fin [1, 2, 3, 4, 100]) 30 (Fin (Max (set [1, 2, 3, 4, 100]))) = Fin 29 \<and>
   hist_idx (map Fin [1, 2, 3, 4, 100]) (Fin (Max (set [1, 2, 3, 4, 100]))) = Fin 14 \<and>
   (\<exists>i<30. density_idx (map Fin [1, 2, 3, 4, 100]) 30 (Fin 100) = Fin (real i)) \<and>
   (5 :: real) \<in> set [5, 5] \<and>
   fsub (Fin (Max (set [5, 5]))) (Fin (Min (set [5, 5]))) = Fin 0 \<and>
   Min (set [5, 5 :: real]) = Max (set [5, 5]) \<and>
   density_idx (map Fin [5, 5]) 30 (Fin 5) = Fin 0 \<and> hist_idx (map Fin [5, 5]) (Fin 5) = Fin 0"
proof -
  have a: "fsub (Fin (Max (set [1, 2, 3, 4, 100]))) (Fin (Min (set [1, 2, 3, 4, 100]))) = Fin 99"
    by (simp add: fsub_Fin fl_numeral)
  have b: "fsub (Fin (Max (set [5, 5]))) (Fin (Min (set [5, 5]))) = Fin 0"
    by (simp add: fsub_Fin)
  have c: "15 * 2 powi (- 1022) \<le> (99 :: real)" by (simp add: power_int_minus)
  from bin_index_in_bounds [of 100 "[1, 2, 3, 4, 100]" 30 99]
    bin_index_in_bounds [of 5 "[5, 5]" 30 0] a b c
  show ?thesis by (simp add: hist_binCount_def)
qed

theorem max_not_in_last_bin:
  "hist_idx [Fin 5] (Math_max [Fin 5]) = Fin 0 \<and>
   density_idx [Fin 5] 30 (Math_max [Fin 5]) = Fin 0 \<and>
   hist_bins [Fin 5] ! (hist_binCount - 1) = 0 \<and> hist_bins [Fin 5] ! 0 = 1 \<and>
   density_bins [Fin 5] 30 ! (30 - 1) = 0 \<and> density_bins [Fin 5] 30 ! 0 = 1"
proof -
  have c: "fl 14 = Fin 14" "fl 29 = Fin 29" by (simp_all add: fl_numeral)
  show ?thesis
    by (simp add: hist_idx_def hist_binSize_def hist_binCount_def density_idx_def density_range_def
          Math_min_def Math_max_def fsub_def or_num_def hist_bins_def density_bins_def bump_def c
          eval_nat_numeral)
qed

section \<open>The histogram on a sample with an empty cell\<close>

lemma gap_lines:
  "sample_lines 27 gap_csv = [''a,b'', ''1,x'', ''2,y'', ''3,z'', ''4,w'', ''5,v'', '',u'']"
  by (simp add: gap_csv_def sample_lines_def CHUNK_SIZE_def trim_def isWhite_def)

lemma gap_column_a:
  "profile_column oneDigit [''a,b'', ''1,x'', ''2,y'', ''3,z'', ''4,w'', ''5,v'', '',u''] ''a'' 0
   = \<lparr>col_name = ''a'', col_type = numeric, uniqueCount = 6,
        sample = [Some ''1'', Some ''2'', Some ''3'']\<rparr>"
  by (simp add: profile_column_def field_def elem_at_def looksNumeric_def as_jsval_def Number_def
        trim_def isWhite_def oneDigit_def)

lemma gap_column_b:
  "profile_column oneDigit [''a,b'', ''1,x'', ''2,y'', ''3,z'', ''4,w'', ''5,v'', '',u''] ''b'' (Suc 0)
   = \<lparr>col_name = ''b'', col_type = categorical, uniqueCount = 6,
        sample = [Some ''x'', Some ''y'', Some ''z'']\<rparr>"
  by (simp add: profile_column_def field_def elem_at_def looksNumeric_def as_jsval_def Number_def
        trim_def isWhite_def oneDigit_def)

lemma gap_stats:
  "analyzeCSV oneDigit 27 gap_csv =
     Inr \<lparr>rowCount = Fin 6, colCount = 2,
          columns = [\<lparr>col_name = ''a'', col_type = numeric, uniqueCount = 6,
                       sample = [Some ''1'', Some ''2'', Some ''3'']\<rparr>,
                     \<lparr>col_name = ''b'', col_type = categorical, uniqueCount = 6,
                       sample = [Some ''x'', Some ''y'', Some ''z'']\<rparr>],
          data = [parse_row oneDigit [''a'', ''b''] ''1,x'', parse_row oneDigit [''a'', ''b''] ''2,y'',
      parse_row oneDigit [''a'', ''b''] ''3,z'', parse_row oneDigit [''a'', ''b''] ''4,w'',
      parse_row oneDigit [''a'', ''b''] ''5,v'', parse_row oneDigit [''a'', ''b''] '',u'']\<rparr>"
proof -
  have t: "gap_csv \<noteq> []" by (simp add: gap_csv_def)
  have h: "trim ''a'' = ''a''" "trim ''b'' = ''b''"
    by (simp_all add: trim_def isWhite_def)
  show ?thesis
    unfolding analyzeCSV_def gap_lines Let_def
    using t by (simp add: h gap_column_a gap_column_b estimatedTotalRows_def CHUNK_SIZE_def)
qed

lemma gap_cells:
  "map (\<lambda>d. cell d ''a'')
     [parse_row oneDigit [''a'', ''b''] ''1,x'', parse_row oneDigit [''a'', ''b''] ''2,y'',
      parse_row oneDigit [''a'', ''b''] ''3,z'', parse_row oneDigit [''a'', ''b''] ''4,w'',
      parse_row oneDigit [''a'', ''b''] ''5,v'', parse_row oneDigit [''a'', ''b''] '',u'']
   = [JNum (Fin 1), JNum (Fin 2), JNum (Fin 3), JNum (Fin 4), JNum (Fin 5), JStr []]"
  by (simp add: parse_row_def field_def elem_at_def looksNumeric_def as_jsval_def Number_def
        trim_def isWhite_def oneDigit_def cell_def inherited_def Let_def)

text \<open>The bin width \<open>5 / 15\<close> and the five quotients by it, rounded.\<close>

lemma third: "fl (1 / 3) = Fin (6004799503160661 / 18014398509481984)"
  using fl_eval [of "- 2" "1 / 3"] by (simp add: rhe_def power_int_minus)

lemma gap_quotients:
  "fl (1 / (6004799503160661 / 18014398509481984)) = Fin 3"
  "fl (2 / (6004799503160661 / 18014398509481984)) = Fin 6"
  "fl (3 / (6004799503160661 / 18014398509481984)) = Fin 9"
  "fl (4 / (6004799503160661 / 18014398509481984)) = Fin 12"
  "fl (5 / (6004799503160661 / 18014398509481984)) = Fin 15"
  using fl_eval [of 1 "1 / (6004799503160661 / 18014398509481984)"]
    fl_eval [of 2 "2 / (6004799503160661 / 18014398509481984)"]
    fl_eval [of 3 "3 / (6004799503160661 / 18014398509481984)"]
    fl_eval [of 3 "4 / (6004799503160661 / 18014398509481984)"]
    fl_eval [of 3 "5 / (6004799503160661 / 18014398509481984)"]
  by (simp_all add: rhe_def power_int_minus)

lemma gap_indices:
  "map (hist_idx [Fin 1, Fin 2, Fin 3, Fin 4, Fin 5, Fin 0])
       [Fin 1, Fin 2, Fin 3, Fin 4, Fin 5, Fin 0]
   = [Fin 3, Fin 6, Fin 9, Fin 12, Fin 14, Fin 0]"
proof -
  have mn: "Math_min [Fin 1, Fin 2, Fin 3, Fin 4, Fin 5, Fin 0] = Fin 0"
    and mx: "Math_max [Fin 1, Fin 2, Fin 3, Fin 4, Fin 5, Fin 0] = Fin 5"
    by (simp_all add: Math_min_def Math_max_def)
  have s: "hist_binSize [Fin 1, Fin 2, Fin 3, Fin 4, Fin 5, Fin 0]
             = Fin (6004799503160661 / 18014398509481984)"
    using third by (simp add: hist_binSize_def hist_binCount_def mn mx fsub_def fl_numeral or_num_def)
  have c: "fsub (Fin (real hist_binCount)) (Fin 1) = Fin 14"
    by (simp add: hist_binCount_def fsub_def fl_numeral)
  show ?thesis
    unfolding list.map hist_idx_def mn s c
    using gap_quotients by (simp add: fsub_def fl_numeral)
qed

lemma gap_bins:
  "hist_bins [Fin 1, Fin 2, Fin 3, Fin 4, Fin 5, Fin 0]
     = [1, 0, 0, 1, 0, 0, 1, 0, 0, 1, 0, 0, 1, 0, 1]"
  using gap_indices
  by (simp add: hist_bins_def hist_binCount_def bump_def eval_nat_numeral)

lemma gap_nums:
  "getNums oneDigit
     [parse_row oneDigit [''a'', ''b''] ''1,x'', parse_row oneDigit [''a'', ''b''] ''2,y'',
      parse_row oneDigit [''a'', ''b''] ''3,z'', parse_row oneDigit [''a'', ''b''] ''4,w'',
      parse_row oneDigit [''a'', ''b''] ''5,v'', parse_row oneDigit [''a'', ''b''] '',u'']
     ''a''
   = [Fin 1, Fin 2, Fin 3, Fin 4, Fin 5, Fin 0]"
  by (simp add: getNums_def parse_row_def field_def elem_at_def looksNumeric_def as_jsval_def
        Number_def trim_def isWhite_def oneDigit_def cell_def inherited_def Let_def)

lemma gap_numeric_count:
  "spec_numeric_count
     [parse_row oneDigit [''a'', ''b''] ''1,x'', parse_row oneDigit [''a'', ''b''] ''2,y'',
      parse_row oneDigit [''a'', ''b''] ''3,z'', parse_row oneDigit [''a'', ''b''] ''4,w'',
      parse_row oneDigit [''a'', ''b''] ''5,v'', parse_row oneDigit [''a'', ''b''] '',u'']
     ''a''
   = 5"
  by (simp add: spec_numeric_count_def parse_row_def field_def elem_at_def looksNumeric_def
        as_jsval_def Number_def trim_def isWhite_def oneDigit_def cell_def inherited_def Let_def)

text \<open>
  C5. The claim is that the 15 bin counters of the histogram sum to the number of
  non-missing numeric values of the first numeric column among the sampled rows. For
  finite values with a finite range the counters sum to the number of values that
  \<open>getNums\<close> keeps (\<open>sum_list_hist_bins\<close>). On the sample of the file
  \<open>gap_csv\<close>, whose sixth data row has an empty first field, the sampler types column \<open>a\<close> numeric and keeps the empty cell as
  the empty string; \<open>getNums\<close> converts it to 0 and keeps it, and the counters sum to 6
  while the column holds 5 numbers.
\<close>

theorem histogram_counts_empty_cell:
  "(case analyzeCSV oneDigit 27 gap_csv of
      Inl e \<Rightarrow> False
    | Inr s \<Rightarrow>
        map (\<lambda>d. cell d ''a'') (data s)
          = [JNum (Fin 1), JNum (Fin 2), JNum (Fin 3), JNum (Fin 4), JNum (Fin 5), JStr []] \<and>
        spec_numeric_count (data s) ''a'' = 5 \<and>
        getNums oneDigit (data s) ''a'' = [Fin 1, Fin 2, Fin 3, Fin 4, Fin 5, Fin 0] \<and>
        histogram_density_branch oneDigit HISTOGRAM (data s) (columns s)
          = Some (BarChart [1, 0, 0, 1, 0, 0, 1, 0, 0, 1, 0, 0, 1, 0, 1] ''a'' ''Count'') \<and>
        sum_list [1, 0, 0, 1, 0, 0, 1, 0, 0, 1, 0, 0, 1, 0, 1 :: nat] = 6)"
  using gap_cells
  by (simp add: gap_stats gap_numeric_count gap_nums gap_bins
        histogram_density_branch_def numCols_def)

section \<open>The density curve next to an empty bin\<close>

text \<open>Where no bin is empty the smoothing is the one the specification words.\<close>

lemma elem_at_in_set: "elem_at arr j = Some c \<Longrightarrow> c \<in> set arr"
  by (auto simp: elem_at_def split: if_splits)

lemma or_val_nonzero:
  "0 \<notin> set arr \<Longrightarrow> or_val (elem_at arr j) val = (case elem_at arr j of None \<Rightarrow> val | Some c \<Rightarrow> c)"
  by (cases "elem_at arr j") (auto simp: or_val_def dest: elem_at_in_set)

lemma smoothed_without_empty_bin: "0 \<notin> set arr \<Longrightarrow> smoothed arr = spec_smoothed arr"
  by (simp add: smoothed_def spec_smoothed_def or_val_nonzero Let_def mult.commute)

text \<open>
  C1. The claim is that the smoothing of a bin count is \<open>(prev + 2 * curr + next) / 4\<close>,
  where only a neighbour outside the array is replaced by the current count. For the
  values \<open>[0, 1]\<close> and 30 bins the counters are 1, 0, ..., 0, 1. The first point of the
  curve has \<open>y = 1\<close>: the right neighbour is inside the array, its count 0 is falsy and
  the current count 1 takes its place, where the wording of the claim gives
  \<open>(1 + 2 * 1 + 0) / 4 = 3 / 4\<close>.
\<close>

theorem density_zero_neighbour:
  "density_bins [Fin 0, Fin 1] 30 =
     [1, 0, 0, 0, 0, 0, 0, 0, 0, 0, 0, 0, 0, 0, 0, 0, 0, 0, 0, 0, 0, 0, 0, 0, 0, 0, 0, 0, 0, 1] \<and>
   getDensity [Fin 0, Fin 1] 30 ! 0 = (Fin 0, 1) \<and>
   spec_smoothed (density_bins [Fin 0, Fin 1] 30) ! 0 = 3 / 4"
proof -
  have b: "density_bins [Fin 0, Fin 1] 30 =
     [1, 0, 0, 0, 0, 0, 0, 0, 0, 0, 0, 0, 0, 0, 0, 0, 0, 0, 0, 0, 0, 0, 0, 0, 0, 0, 0, 0, 0, 1]"
    by (simp add: density_bins_def density_idx_def density_range_def Math_min_def Math_max_def
          fsub_def fl_numeral or_num_def bump_def eval_nat_numeral)
  have s: "smoothed (density_bins [Fin 0, Fin 1] 30) ! 0 = 1"
    unfolding b by (simp add: smoothed_def or_val_def elem_at_def)
  have g: "getDensity [Fin 0, Fin 1] 30 ! 0 = (Fin 0, 1)"
    using s by (simp add: getDensity_def Let_def Math_min_def Math_max_def density_range_def
        fsub_def or_num_def smoothed_def b)
  have sp: "spec_smoothed (density_bins [Fin 0, Fin 1] 30) ! 0 = 3 / 4"
    unfolding b by (simp add: spec_smoothed_def elem_at_def)
  show ?thesis using b g sp by simp
qed

section \<open>Self-correlation\<close>




text \<open>Rounding is symmetric about 0.\<close>

lemma rhe_minus: "rhe (- x) = - rhe x"
proof (cases "x = of_int \<lfloor>x\<rfloor>")
  case True
  then obtain k where k: "x = of_int k" ..
  then have "- x = of_int (- k)" by simp
  then have "rhe (- x) = - k" by (simp only: rhe_of_int)
  then show ?thesis using k by simp
next
  case False
  define f where "f = \<lfloor>x\<rfloor>"
  define r where "r = x - of_int f"
  have "\<lceil>x\<rceil> = f + 1" using False by (simp add: ceiling_altdef f_def)
  then have g: "\<lfloor>- x\<rfloor> = - f - 1" unfolding ceiling_def by linarith
  have a: "- x - of_int (- f - 1) = 1 - r" by (simp add: r_def)
  have e: "even (- f - 1) \<longleftrightarrow> odd f" by simp
  have p: "rhe x = (if r < 1 / 2 then f else if r > 1 / 2 then f + 1 else if even f then f else f + 1)"
    by (simp add: rhe_def Let_def f_def r_def)
  have q: "rhe (- x) = (if 1 - r < 1 / 2 then - f - 1 else if 1 - r > 1 / 2 then - f
                        else if odd f then - f - 1 else - f)"
    unfolding rhe_def Let_def g a e by simp
  consider "r < 1 / 2" | "r > 1 / 2" | "r = 1 / 2" by linarith
  then show ?thesis
  proof cases
    case 1
    then show ?thesis unfolding p q by simp
  next
    case 2
    then show ?thesis unfolding p q by simp
  next
    case 3
    then show ?thesis unfolding p q by simp
  qed
qed

lemma fl_minus: "fl (- x) = fneg (fl x)"
proof -
  have "expo (- x) = expo x" by (simp add: expo_def)
  then have "ulp (- x) = ulp x" by (simp add: ulp_def)
  then have "rnd (- x) = - rnd x" by (simp add: rnd_def rhe_minus)
  then show ?thesis by (simp add: fl_def)
qed





















text \<open>
  Outside that condition the rounding decides. The squares of 100000001, 100000002 and
  100000003 exceed \<open>2^53\<close>; \<open>n * sumX2\<close> and \<open>sumX * sumX\<close> round to the same double and
  the column of three distinct values has the self-correlation 0.
\<close>

lemma large_squares:
  "fl 10000000200000001 = Fin 10000000200000000"
  "fl 10000000200000000 = Fin 10000000200000000"
  "fl 10000000400000004 = Fin 10000000400000004"
  "fl 20000000600000004 = Fin 20000000600000004"
  "fl 10000000600000009 = Fin 10000000600000008"
  "fl 30000001200000012 = Fin 30000001200000012"
  "fl 90000003600000036 = Fin 90000003600000032"
  using fl_eval [of 53 10000000200000001] fl_eval [of 53 10000000200000000]
    fl_eval [of 53 10000000400000004] fl_eval [of 54 20000000600000004]
    fl_eval [of 53 10000000600000009] fl_eval [of 54 30000001200000012]
    fl_eval [of 56 90000003600000036]
  by (simp_all add: rhe_def)

lemma calculateCorrelation_large_distinct:
  "calculateCorrelation [Fin 100000001, Fin 100000002, Fin 100000003]
     [Fin 100000001, Fin 100000002, Fin 100000003] = Fin 0"
  using large_squares
  by (simp add: calculateCorrelation_def fsub_def fl_numeral)

text \<open>
  A column that holds the double nearest to 1.3 three times: \<open>n * sumX2\<close> rounds
  below \<open>sumX * sumX\<close>, the variance term is \<open>-2^-49\<close>, and the self-correlation of the
  constant column is \<open>-1\<close>.
\<close>

lemma constant_rounds:
  "fl (5854679515581645 / 4503599627370496) = Fin (5854679515581645 / 4503599627370496)"
  "fl (5854679515581645 / 4503599627370496 + 5854679515581645 / 4503599627370496) = Fin (5854679515581645 / 2251799813685248)"
  "fl (5854679515581645 / 2251799813685248 + 5854679515581645 / 4503599627370496) = Fin (2195504818343117 / 562949953421312)"
  "fl (5854679515581645 / 4503599627370496 * (5854679515581645 / 4503599627370496)) = Fin (7611083370256139 / 4503599627370496)"
  "fl (7611083370256139 / 4503599627370496) = Fin (7611083370256139 / 4503599627370496)"
  "fl (7611083370256139 / 4503599627370496 + 7611083370256139 / 4503599627370496) = Fin (7611083370256139 / 2251799813685248)"
  "fl (7611083370256139 / 2251799813685248 + 7611083370256139 / 4503599627370496) = Fin (713539065961513 / 140737488355328)"
  "fl (3 * (713539065961513 / 140737488355328)) = Fin (2140617197884539 / 140737488355328)"
  "fl (2195504818343117 / 562949953421312 * (2195504818343117 / 562949953421312)) = Fin (8562468791538157 / 562949953421312)"
  "fl (1 / 562949953421312) = Fin (1 / 562949953421312)"
  "fl (1 / 316912650057057350374175801344) = Fin (1 / 316912650057057350374175801344)"
  using fl_eval [of "0" "5854679515581645 / 4503599627370496"]
    fl_eval [of "1" "5854679515581645 / 4503599627370496 + 5854679515581645 / 4503599627370496"]
    fl_eval [of "1" "5854679515581645 / 2251799813685248 + 5854679515581645 / 4503599627370496"]
    fl_eval [of "0" "5854679515581645 / 4503599627370496 * (5854679515581645 / 4503599627370496)"]
    fl_eval [of "0" "7611083370256139 / 4503599627370496"]
    fl_eval [of "1" "7611083370256139 / 4503599627370496 + 7611083370256139 / 4503599627370496"]
    fl_eval [of "2" "7611083370256139 / 2251799813685248 + 7611083370256139 / 4503599627370496"]
    fl_eval [of "3" "3 * (713539065961513 / 140737488355328)"]
    fl_eval [of "3" "2195504818343117 / 562949953421312 * (2195504818343117 / 562949953421312)"]
    fl_eval [of "- 49" "1 / 562949953421312"]
    fl_eval [of "- 98" "1 / 316912650057057350374175801344"]
  by (simp_all add: rhe_def power_int_minus)

lemma sqrt_tiny: "sqrt (1 / 316912650057057350374175801344) = 1 / 562949953421312"
  by (rule real_sqrt_unique) (simp_all add: power2_eq_square)

lemma calculateCorrelation_constant_fraction:
  "calculateCorrelation
     [Fin (5854679515581645 / 4503599627370496), Fin (5854679515581645 / 4503599627370496),
      Fin (5854679515581645 / 4503599627370496)]
     [Fin (5854679515581645 / 4503599627370496), Fin (5854679515581645 / 4503599627370496),
      Fin (5854679515581645 / 4503599627370496)] = Fin (- 1)"
  using constant_rounds fl_minus [of "1 / 562949953421312"] fl_minus [of 1]
  by (simp add: calculateCorrelation_def fsub_def sqrt_tiny)




section \<open>Properties of the sampler\<close>

lemma analyzeCSV_cases:
  "analyzeCSV strToNum fileSize text =
     (if text = [] then Inl ''Empty file''
      else if length (sample_lines fileSize text) < 2 then Inl ''Invalid CSV: Not enough rows''
      else Inr \<lparr>rowCount = estimatedTotalRows fileSize (sample_lines fileSize text),
               colCount = length (map trim (split (CHR '','') (sample_lines fileSize text ! 0))),
               columns = map (\<lambda>(name, index).
                               profile_column strToNum (sample_lines fileSize text) name index)
                           (zip (map trim (split (CHR '','') (sample_lines fileSize text ! 0)))
                              [0..<length (map trim (split (CHR '','') (sample_lines fileSize text ! 0)))]),
               data = map (parse_row strToNum (map trim (split (CHR '','') (sample_lines fileSize text ! 0))))
                        (take 100 (drop 1 (sample_lines fileSize text)))\<rparr>)"
  by (simp add: analyzeCSV_def Let_def)

lemma sample_lines_small:
  "fileSize \<le> CHUNK_SIZE \<Longrightarrow>
     sample_lines fileSize text = filter (\<lambda>l. trim l \<noteq> []) (split (CHR 0x0A) text)"
  by (simp add: sample_lines_def)

lemma sample_lines_large:
  "CHUNK_SIZE < fileSize \<Longrightarrow>
     sample_lines fileSize text = filter (\<lambda>l. trim l \<noteq> []) (butlast (split (CHR 0x0A) text))"
  by (simp add: sample_lines_def)

lemma split_replicate: "d \<noteq> c \<Longrightarrow> split c (replicate n d @ rest) =
    (case split c rest of [] \<Rightarrow> [replicate n d] | w # ws \<Rightarrow> (replicate n d @ w) # ws)"
proof (induction n)
  case 0
  then show ?case by (cases rest) (auto split: list.splits)
next
  case (Suc n)
  then show ?case by (auto split: list.splits)
qed

lemma split_replicate_only: "d \<noteq> c \<Longrightarrow> split c (replicate n d) = [replicate n d]"
  using split_replicate [of d c n "[]"] by simp

lemma large_lines: "sample_lines 102400 large_csv = [''a'', ''1'']"
  by (simp add: large_csv_def sample_lines_def CHUNK_SIZE_def trim_def isWhite_def
        split_replicate_only)

lemma scenario_lines:
  "sample_lines 16 scenario_csv
     = [''a,b'', ''1,x'', ''2,y'', ''3,z'']"
  by (simp add: scenario_csv_def sample_lines_def CHUNK_SIZE_def trim_def isWhite_def)

lemma split_line: "c \<notin> set w \<Longrightarrow> split c (w @ c # rest) = w # split c rest"
  by (induction w) auto

lemma split_lines:
  "c \<notin> set w \<Longrightarrow> split c (concat (replicate n (w @ [c])) @ rest) = replicate n w @ split c rest"
  by (induction n) (simp_all add: split_line)

lemma cut_lines: "sample_lines 59392 cut_csv = ''a'' # replicate 24 ''1''"
proof -
  have "split (CHR 0x0A) cut_csv
          = ''a'' # replicate 24 ''1'' @ [replicate 51150 (CHR ''7'')]"
    unfolding cut_csv_def
    using split_line [of "CHR 0x0A" "''a''"
        "concat (replicate 24 (''1'' @ [CHR 0x0A])) @ replicate 51150 (CHR ''7'')"]
      split_lines [of "CHR 0x0A" "''1''" 24 "replicate 51150 (CHR ''7'')"]
    by (simp add: split_replicate_only)
  then have "butlast (split (CHR 0x0A) cut_csv) = ''a'' # replicate 24 ''1''"
    by (simp add: butlast_append)
  then show ?thesis
    by (simp add: sample_lines_def CHUNK_SIZE_def trim_def isWhite_def)
qed

text \<open>
  The estimate for that file: \<open>59392 / 51200\<close> rounds to a double just below \<open>29 / 25\<close>,
  the product with 25 rounds to a double just below 29, and the floor is 28.
\<close>

lemma estimate_rounds:
  "fl (59392 / 51200) = Fin (5224175567749775 / 4503599627370496)"
  "fl (5224175567749775 / 4503599627370496 * 25) = Fin (8162774324609023 / 281474976710656)"
  using fl_eval [of 0 "59392 / 51200"]
    fl_eval [of 4 "5224175567749775 / 4503599627370496 * 25"]
  by (simp_all add: rhe_def power_int_minus)

lemma cut_estimate: "estimatedTotalRows 59392 (''a'' # replicate 24 ''1'') = Fin 28"
  using estimate_rounds by (simp add: estimatedTotalRows_def CHUNK_SIZE_def)

text \<open>
  C3. When \<open>analyzeCSV\<close> resolves, its row count is the number of non-blank sampled lines
  minus 1 when the file fits in one chunk of 50 KiB, and
  \<open>floor((fileSize / CHUNK_SIZE) * lines)\<close> otherwise, where the sampled lines then exclude
  the last line of the chunk and the quotient, the product and the floor are those of the
  language, in double precision. The one-chunk input \<open>scenario_csv\<close> resolves with the row
  count 3.
\<close>

theorem analyzeCSV_rowCount:
  "(analyzeCSV strToNum fileSize text = Inr s \<longrightarrow>
      (fileSize \<le> 50 * 1024 \<longrightarrow>
         rowCount s = Fin (real (length (filter (\<lambda>l. trim l \<noteq> []) (split (CHR 0x0A) text))) - 1)) \<and>
      (50 * 1024 < fileSize \<longrightarrow>
         rowCount s = ffloor (fmul (fdiv (Fin (real fileSize)) (Fin (real CHUNK_SIZE)))
            (Fin (real (length (filter (\<lambda>l. trim l \<noteq> []) (butlast (split (CHR 0x0A) text))))))))) \<and>
   map_sum (\<lambda>e. e) rowCount (analyzeCSV strToNum 16 scenario_csv) = Inr (Fin 3)"
proof (intro conjI impI)
  assume r: "analyzeCSV strToNum fileSize text = Inr s" and f: "fileSize \<le> 50 * 1024"
  from f have c: "fileSize \<le> CHUNK_SIZE" by (simp add: CHUNK_SIZE_def)
  from r have "rowCount s = estimatedTotalRows fileSize (sample_lines fileSize text)"
    by (auto simp: analyzeCSV_cases split: if_splits)
  then show "rowCount s = Fin (real (length (filter (\<lambda>l. trim l \<noteq> []) (split (CHR 0x0A) text))) - 1)"
    using c by (simp add: estimatedTotalRows_def sample_lines_small)
next
  assume r: "analyzeCSV strToNum fileSize text = Inr s" and f: "50 * 1024 < fileSize"
  from f have c: "CHUNK_SIZE < fileSize" by (simp add: CHUNK_SIZE_def)
  from r have "rowCount s = estimatedTotalRows fileSize (sample_lines fileSize text)"
    by (auto simp: analyzeCSV_cases split: if_splits)
  then show "rowCount s = ffloor (fmul (fdiv (Fin (real fileSize)) (Fin (real CHUNK_SIZE)))
            (Fin (real (length (filter (\<lambda>l. trim l \<noteq> []) (butlast (split (CHR 0x0A) text)))))))"
    using c by (simp only: estimatedTotalRows_def sample_lines_large if_True)
next
  have ne: "scenario_csv \<noteq> []" by (simp add: scenario_csv_def)
  show "map_sum (\<lambda>e. e) rowCount (analyzeCSV strToNum 16 scenario_csv) = Inr (Fin 3)"
    unfolding analyzeCSV_cases scenario_lines
    using ne by (simp add: estimatedTotalRows_def CHUNK_SIZE_def)
qed

theorem analyzeCSV_rowCount_witness:
  "length large_csv = 50 * 1024 \<and> length cut_csv = 50 * 1024 \<and>
   (case analyzeCSV (\<lambda>s. NaN) 102400 large_csv of Inl e \<Rightarrow> False | Inr s \<Rightarrow> rowCount s = Fin 4) \<and>
   (case analyzeCSV (\<lambda>s. NaN) 59392 cut_csv of Inl e \<Rightarrow> False | Inr s \<Rightarrow> rowCount s = Fin 28) \<and>
   (case analyzeCSV (\<lambda>s. NaN) 16 scenario_csv of Inl e \<Rightarrow> False | Inr s \<Rightarrow> rowCount s = Fin 3)"
proof -
  have ne: "large_csv \<noteq> []" by (simp add: large_csv_def)
  have ne': "scenario_csv \<noteq> []" by (simp add: scenario_csv_def)
  have ne'': "cut_csv \<noteq> []" by (simp add: cut_csv_def)
  obtain s where r: "analyzeCSV (\<lambda>s. NaN) 102400 large_csv = Inr s"
    using ne by (simp add: analyzeCSV_cases large_lines)
  obtain t where q: "analyzeCSV (\<lambda>s. NaN) 16 scenario_csv = Inr t"
    using ne' by (simp add: analyzeCSV_cases scenario_lines)
  obtain w where p: "analyzeCSV (\<lambda>s. NaN) 59392 cut_csv = Inr w"
    using ne'' by (simp add: analyzeCSV_cases cut_lines)
  have l: "filter (\<lambda>l. trim l \<noteq> []) (butlast (split (CHR 0x0A) large_csv)) = [''a'', ''1'']"
    using large_lines by (simp add: sample_lines_large CHUNK_SIZE_def)
  have m: "filter (\<lambda>l. trim l \<noteq> []) (split (CHR 0x0A) scenario_csv) = [''a,b'', ''1,x'', ''2,y'', ''3,z'']"
    using scenario_lines by (simp add: sample_lines_small CHUNK_SIZE_def)
  have k: "filter (\<lambda>l. trim l \<noteq> []) (butlast (split (CHR 0x0A) cut_csv)) = ''a'' # replicate 24 ''1''"
    using cut_lines by (simp add: sample_lines_large CHUNK_SIZE_def)
  from analyzeCSV_rowCount [of "\<lambda>s. NaN" 102400 large_csv s] r l
  have "rowCount s = Fin 4" by (simp add: CHUNK_SIZE_def fl_numeral)
  moreover from analyzeCSV_rowCount [of "\<lambda>s. NaN" 16 scenario_csv t] q m
  have "rowCount t = Fin 3" by simp
  moreover from analyzeCSV_rowCount [of "\<lambda>s. NaN" 59392 cut_csv w] p k estimate_rounds
  have "rowCount w = Fin 28" by (simp add: CHUNK_SIZE_def)
  moreover have "length large_csv = 50 * 1024" by (simp add: large_csv_def)
  moreover have "length cut_csv = 50 * 1024"
    by (simp add: cut_csv_def length_concat sum_list_replicate)
  ultimately show ?thesis using r q p by simp
qed

text \<open>
  C4. \<open>analyzeCSV\<close> rejects, with a message and no summary, exactly when the decoded text
  is empty (message \<open>Empty file\<close>) or fewer than 2 non-blank lines remain once the last
  line of a file larger than the chunk is dropped (message
  \<open>Invalid CSV: Not enough rows\<close>). In every other case it resolves with the summary:
  the estimated row count, one column profile per header, and at most 100 data rows.
\<close>

theorem analyzeCSV_rejects_iff:
  "(isl (analyzeCSV strToNum fileSize text)
      \<longleftrightarrow> text = [] \<or> length (sample_lines fileSize text) < 2) \<and>
   (text = [] \<longrightarrow> analyzeCSV strToNum fileSize text = Inl ''Empty file'') \<and>
   (text \<noteq> [] \<and> length (sample_lines fileSize text) < 2 \<longrightarrow>
      analyzeCSV strToNum fileSize text = Inl ''Invalid CSV: Not enough rows'') \<and>
   (text \<noteq> [] \<and> 2 \<le> length (sample_lines fileSize text) \<longrightarrow>
      (\<exists>s. analyzeCSV strToNum fileSize text = Inr s \<and>
           rowCount s = estimatedTotalRows fileSize (sample_lines fileSize text) \<and>
           colCount s = length (split (CHR '','') (sample_lines fileSize text ! 0)) \<and>
           length (columns s) = colCount s \<and>
           length (data s) = min 100 (length (sample_lines fileSize text) - 1)))"
  by (auto simp: analyzeCSV_cases)

theorem analyzeCSV_rejects_iff_witness:
  "analyzeCSV (\<lambda>s. NaN) 0 [] = Inl ''Empty file'' \<and>
   [CHR ''a'', CHR 0x0A] \<noteq> [] \<and> length (sample_lines 2 [CHR ''a'', CHR 0x0A]) < 2 \<and>
   analyzeCSV (\<lambda>s. NaN) 2 [CHR ''a'', CHR 0x0A] = Inl ''Invalid CSV: Not enough rows'' \<and>
   scenario_csv \<noteq> [] \<and> 2 \<le> length (sample_lines 16 scenario_csv) \<and>
   \<not> isl (analyzeCSV (\<lambda>s. NaN) 16 scenario_csv)"
proof -
  have a: "length (sample_lines 2 [CHR ''a'', CHR 0x0A]) < 2"
    by (simp add: sample_lines_def CHUNK_SIZE_def trim_def isWhite_def)
  have b: "scenario_csv \<noteq> []" by (simp add: scenario_csv_def)
  have c: "2 \<le> length (sample_lines 16 scenario_csv)" by (simp add: scenario_lines)
  from analyzeCSV_rejects_iff [of "\<lambda>s. NaN" 0 "[]"]
    analyzeCSV_rejects_iff [of "\<lambda>s. NaN" 2 "[CHR ''a'', CHR 0x0A]"]
    analyzeCSV_rejects_iff [of "\<lambda>s. NaN" 16 scenario_csv] a b c
  show ?thesis by auto
qed

end
